theory Spec2Isabelle
  imports Complex_Main "HOL-Library.Word"
begin

section \<open>Tiled upscaling pipeline of \<^verbatim>\<open>upscale/main.py\<close>\<close>

text \<open>
  The development embeds the parts of \<^verbatim>\<open>upscale/main.py\<close> that decide how a large
  image is cut into tiles, how the tiles are upscaled and put back together, and how
  progress is reported. Python integers are \<open>int\<close>; readings of the wall clock are
  passed in as rational numbers.
\<close>

subsection \<open>Tile grid (lines 266-287 of \<^verbatim>\<open>upscale_image\<close>)\<close>

type_synonym tile_position = "int \<times> int \<times> int \<times> int"
  \<comment> \<open>\<open>(x_start, y_start, x_end, y_end)\<close>, as appended to \<^verbatim>\<open>tile_positions\<close>\<close>

definition overlap :: int where
  "overlap = 16"

definition num_tiles :: "int \<Rightarrow> int \<Rightarrow> int" where
  \<comment> \<open>\<^verbatim>\<open>max(1, (width + tile_size - 1) // tile_size)\<close>; \<open>div\<close> on \<open>int\<close> rounds down as \<^verbatim>\<open>//\<close> does\<close>
  "num_tiles extent tile_size = max 1 ((extent + tile_size - 1) div tile_size)"

definition tile_position :: "int \<Rightarrow> int \<Rightarrow> int \<Rightarrow> int \<Rightarrow> int \<Rightarrow> tile_position" where
  \<comment> \<open>body of the inner loop, for grid column \<open>x\<close> and grid row \<open>y\<close>\<close>
  "tile_position width height tile_size x y =
     (let x_start = max 0 (x * tile_size - overlap);
          y_start = max 0 (y * tile_size - overlap);
          x_end = min width ((x + 1) * tile_size + overlap);
          y_end = min height ((y + 1) * tile_size + overlap)
      in (x_start, y_start, x_end, y_end))"

definition tile_positions :: "int \<Rightarrow> int \<Rightarrow> int \<Rightarrow> tile_position list" where
  \<comment> \<open>\<^verbatim>\<open>for y in range(num_tiles_y): for x in range(num_tiles_x): ... append\<close>.
      The loop is only reached with \<open>tile_size > 0\<close>, so \<^verbatim>\<open>//\<close> cannot raise there.\<close>
  "tile_positions width height tile_size =
     (let num_tiles_x = num_tiles width tile_size;
          num_tiles_y = num_tiles height tile_size
      in concat (map (\<lambda>y. map (\<lambda>x. tile_position width height tile_size x y)
                                [0 .. num_tiles_x - 1])
                     [0 .. num_tiles_y - 1]))"

definition region :: "tile_position \<Rightarrow> (int \<times> int) set" where
  \<comment> \<open>the source pixels \<open>(x, y)\<close> of a tile: half-open in both directions\<close>
  "region p = (case p of (x_start, y_start, x_end, y_end) \<Rightarrow>
                 {x_start ..< x_end} \<times> {y_start ..< y_end})"

definition in_bounds :: "int \<Rightarrow> int \<Rightarrow> tile_position \<Rightarrow> bool" where
  "in_bounds width height p = (case p of (x_start, y_start, x_end, y_end) \<Rightarrow>
     0 \<le> x_start \<and> x_start < x_end \<and> x_end \<le> width \<and>
     0 \<le> y_start \<and> y_start < y_end \<and> y_end \<le> height)"

subsection \<open>Images as arrays\<close>

text \<open>
  An image is a \<^verbatim>\<open>numpy\<close> array of shape \<open>(rows, cols, 3)\<close> with \<^verbatim>\<open>uint8\<close> entries,
  as \<^verbatim>\<open>cv2.imread\<close> returns it: the shape and the pixel stored at each row and column.
  Only the pixels inside the shape are meaningful.
\<close>

type_synonym bgr = "8 word \<times> 8 word \<times> 8 word"

record ndarray =
  rows :: int
  cols :: int
  pixel :: "int \<Rightarrow> int \<Rightarrow> bgr"

datatype exn = ValueError | ZeroDivisionError | Cv2Error string
  \<comment> \<open>\<open>Cv2Error msg\<close> stands for whatever exception \<^verbatim>\<open>sr.upsample\<close> raises, with its message\<close>

definition zeros :: "int \<Rightarrow> int \<Rightarrow> ndarray" where
  \<comment> \<open>\<^verbatim>\<open>np.zeros((output_height, output_width, 3), dtype=np.uint8)\<close>\<close>
  "zeros r c = \<lparr>rows = r, cols = c, pixel = (\<lambda>_ _. (0, 0, 0))\<rparr>"

definition slice_index :: "int \<Rightarrow> int \<Rightarrow> int" where
  \<comment> \<open>how Python places one bound of a slice in a dimension of length \<open>n\<close>:
      a negative bound counts from the end, and every bound is clipped to \<open>[0, n]\<close>\<close>
  "slice_index i n = (if i < 0 then max 0 (i + n) else min i n)"

definition slice_range :: "int \<times> int \<Rightarrow> int \<Rightarrow> int \<times> int" where
  \<comment> \<open>the indices \<open>lo ..< hi\<close> selected by \<^verbatim>\<open>start:stop\<close>; an empty selection has \<open>hi = lo\<close>\<close>
  "slice_range s n =
     (let lo = slice_index (fst s) n; hi = slice_index (snd s) n in (lo, max lo hi))"

definition getslice :: "ndarray \<Rightarrow> int \<times> int \<Rightarrow> int \<times> int \<Rightarrow> ndarray" where
  \<comment> \<open>\<^verbatim>\<open>a[r0:r1, c0:c1]\<close>\<close>
  "getslice a rs cs =
     (let (r_lo, r_hi) = slice_range rs (rows a);
          (c_lo, c_hi) = slice_range cs (cols a)
      in \<lparr>rows = r_hi - r_lo, cols = c_hi - c_lo,
          pixel = (\<lambda>r c. pixel a (r_lo + r) (c_lo + c))\<rparr>)"

definition setslice :: "ndarray \<Rightarrow> int \<times> int \<Rightarrow> int \<times> int \<Rightarrow> ndarray \<Rightarrow> exn + ndarray" where
  \<comment> \<open>\<^verbatim>\<open>a[r0:r1, c0:c1] = v\<close>: the value is broadcast to the shape of the selected
      region (a dimension of the value must equal the region's or be 1), otherwise
      \<^verbatim>\<open>numpy\<close> raises \<^verbatim>\<open>ValueError\<close> and the array is unchanged\<close>
  "setslice a rs cs v =
     (let (r_lo, r_hi) = slice_range rs (rows a);
          (c_lo, c_hi) = slice_range cs (cols a)
      in if (rows v = r_hi - r_lo \<or> rows v = 1) \<and> (cols v = c_hi - c_lo \<or> cols v = 1)
         then Inr (a\<lparr>pixel := (\<lambda>r c.
                if r_lo \<le> r \<and> r < r_hi \<and> c_lo \<le> c \<and> c < c_hi
                then pixel v (if rows v = 1 then 0 else r - r_lo)
                             (if cols v = 1 then 0 else c - c_lo)
                else pixel a r c)\<rparr>)
         else Inl ValueError)"

subsection \<open>\<^verbatim>\<open>ProgressTracker\<close> (lines 35-83)\<close>

text \<open>
  \<^verbatim>\<open>time.time()\<close> is an input: every function that reads the clock takes the reading as
  an argument. Times are rational numbers, so the rounding of floating-point arithmetic
  is not represented. \<^verbatim>\<open>update_interval\<close> is assigned in \<^verbatim>\<open>__init__\<close> only; it is
  the constant below. Writing to \<^verbatim>\<open>sys.stdout\<close> is the value \<open>display\<close> returns.
\<close>

record progress_tracker =
  total' :: int
  current :: int
  start_time :: rat
  description :: string
  last_update_time :: rat

definition update_interval :: rat where
  "update_interval = 1 / 2"

definition init_tracker :: "int \<Rightarrow> string \<Rightarrow> rat \<Rightarrow> progress_tracker" where
  \<comment> \<open>\<^verbatim>\<open>__init__(total, description)\<close>, with the clock reading for \<^verbatim>\<open>start_time\<close>\<close>
  "init_tracker n d now =
     \<lparr>total' = n, current = 0, start_time = now, description = d, last_update_time = 0\<rparr>"

datatype eta = Eta int | Unknown
  \<comment> \<open>\<open>Eta s\<close>: the text of \<^verbatim>\<open>datetime.timedelta(seconds=s)\<close>; \<open>Unknown\<close>: the text "Unknown"\<close>

record progress_line =
  line_description :: string
  bar_filled :: nat
  bar_empty :: nat
  percent :: rat
  line_current :: int
  line_total :: int
  line_eta :: eta

definition truediv :: "rat \<Rightarrow> rat \<Rightarrow> exn + rat" where
  \<comment> \<open>Python's \<^verbatim>\<open>/\<close>, which raises when the divisor is zero\<close>
  "truediv a b = (if b = 0 then Inl ZeroDivisionError else Inr (a / b))"

definition int_trunc :: "rat \<Rightarrow> int" where
  \<comment> \<open>Python's \<^verbatim>\<open>int(x)\<close> on a float: rounds towards zero\<close>
  "int_trunc q = (if 0 \<le> q then \<lfloor>q\<rfloor> else \<lceil>q\<rceil>)"

definition display :: "progress_tracker \<Rightarrow> rat \<Rightarrow> exn + progress_line option" where
  \<comment> \<open>\<open>Inr None\<close>: returned without writing; \<open>Inr (Some l)\<close>: wrote the line \<open>l\<close>.
      A string repeated a negative number of times is empty, hence \<open>nat\<close> for the bar.\<close>
  "display t now =
     (if total' t \<le> 0 then Inr None
      else case truediv (of_int (current t * 100)) (of_int (total' t)) of
        Inl e \<Rightarrow> Inl e
      | Inr q \<Rightarrow>
         (let percent = min 100 q;
              elapsed = now - start_time t
          in case (if current t > 0
                   then (case truediv (elapsed * of_int (total' t - current t))
                                      (of_int (current t)) of
                           Inl e \<Rightarrow> Inl e
                         | Inr eta_seconds \<Rightarrow> Inr (Eta (int_trunc eta_seconds)))
                   else Inr Unknown) of
               Inl e \<Rightarrow> Inl e
             | Inr eta \<Rightarrow>
                (let bar_length = 30
                 in case truediv (of_int (bar_length * current t)) (of_int (total' t)) of
                      Inl e \<Rightarrow> Inl e
                    | Inr f \<Rightarrow>
                       (let filled_length = int_trunc f
                        in Inr (Some \<lparr>line_description = description t,
                                      bar_filled = nat filled_length,
                                      bar_empty = nat (bar_length - filled_length),
                                      percent = percent,
                                      line_current = current t,
                                      line_total = total' t,
                                      line_eta = eta\<rparr>)))))"

datatype refresh = NoRefresh | Refresh "progress_line option"
  \<comment> \<open>whether \<open>update\<close> called \<open>display\<close>, and what \<open>display\<close> wrote\<close>

definition update :: "progress_tracker \<Rightarrow> int \<Rightarrow> rat \<Rightarrow> rat
    \<Rightarrow> exn + progress_tracker \<times> refresh" where
  \<comment> \<open>\<open>current_time\<close> is the clock read by \<open>update\<close>, \<open>display_time\<close> the later
      reading made inside \<open>display\<close>\<close>
  "update t amount current_time display_time =
     (let t1 = t\<lparr>current := current t + amount\<rparr>
      in if current_time - last_update_time t1 \<ge> update_interval
         then (case display t1 display_time of
                 Inl e \<Rightarrow> Inl e
               | Inr shown \<Rightarrow> Inr (t1\<lparr>last_update_time := current_time\<rparr>, Refresh shown))
         else Inr (t1, NoRefresh))"

definition complete :: "progress_tracker \<Rightarrow> rat \<Rightarrow> exn + progress_tracker \<times> progress_line option" where
  "complete t now =
     (let t1 = t\<lparr>current := total' t\<rparr>
      in case display t1 now of Inl e \<Rightarrow> Inl e | Inr shown \<Rightarrow> Inr (t1, shown))"

subsection \<open>Upscaling the tiles (\<^verbatim>\<open>process_tile\<close>, lines 156-162, and the executor, lines 299-301)\<close>

text \<open>
  \<^verbatim>\<open>sr.upsample\<close> is the external transform: it returns an array or raises. Every call of
  it is recorded as an event, next to the other accesses to the outside world that
  \<^verbatim>\<open>upscale_image\<close> makes.
\<close>

type_synonym transform = "ndarray \<Rightarrow> exn + ndarray"

datatype event = ModelProbe | Download | ImageRead | ModelRead
  | Upsample ndarray | ImageWrite ndarray

fun is_upsample :: "event \<Rightarrow> bool" where
  "is_upsample (Upsample a) = True"
| "is_upsample e = False"

definition process_tile :: "transform \<Rightarrow> ndarray \<Rightarrow> progress_tracker option \<Rightarrow> rat \<times> rat
    \<Rightarrow> event list \<times> (exn + ndarray \<times> progress_tracker option)" where
  \<comment> \<open>\<open>readings\<close> are the two clock readings \<^verbatim>\<open>tracker.update()\<close> may make\<close>
  "process_tile sr tile tracker readings =
     ([Upsample tile],
      case sr tile of
        Inl e \<Rightarrow> Inl e
      | Inr result \<Rightarrow>
         (case tracker of
            None \<Rightarrow> Inr (result, None)
          | Some t \<Rightarrow>
             (case update t 1 (fst readings) (snd readings) of
                Inl e \<Rightarrow> Inl e
              | Inr (t', _) \<Rightarrow> Inr (result, Some t'))))"

text \<open>
  \<^verbatim>\<open>list(executor.map(process_tile, ...))\<close> collects the results in the order of the
  submitted tiles and raises the exception of the first tile, in that order, whose call
  raised. The model runs the calls one after the other in that order, which is one of the
  schedules of the thread pool; the recorded events are the calls up to the first one
  that raises. \<open>clock i\<close> gives the clock readings of the \<open>i\<close>-th call.
\<close>

fun executor_map :: "transform \<Rightarrow> progress_tracker option \<Rightarrow> (nat \<Rightarrow> rat \<times> rat) \<Rightarrow> nat
    \<Rightarrow> ndarray list \<Rightarrow> event list \<times> (exn + ndarray list \<times> progress_tracker option)" where
  "executor_map sr tracker clock i [] = ([], Inr ([], tracker))"
| "executor_map sr tracker clock i (tile # tiles) =
     (case process_tile sr tile tracker (clock i) of
        (ev, Inl e) \<Rightarrow> (ev, Inl e)
      | (ev, Inr (result, tracker')) \<Rightarrow>
         (case executor_map sr tracker' clock (Suc i) tiles of
            (evs, Inl e) \<Rightarrow> (ev @ evs, Inl e)
          | (evs, Inr (results, tracker'')) \<Rightarrow> (ev @ evs, Inr (result # results, tracker''))))"

subsection \<open>Combining the upscaled tiles (lines 305-337)\<close>

datatype tile_write = Written "int \<times> int" "int \<times> int" | Skipped
  \<comment> \<open>what one iteration of the combining loop did: \<open>Written (r_lo, r_hi) (c_lo, c_hi)\<close>
      assigned the canvas rows \<open>r_lo ..< r_hi\<close> and columns \<open>c_lo ..< c_hi\<close>;
      \<open>Skipped\<close> is the \<^verbatim>\<open>except ValueError\<close> branch, which only prints\<close>

definition combine_tile :: "int \<Rightarrow> int \<Rightarrow> int \<Rightarrow> ndarray \<Rightarrow> tile_position \<times> ndarray
    \<Rightarrow> ndarray \<times> tile_write" where
  "combine_tile scale output_width output_height upscaled pt =
     (case pt of ((x_start, y_start, x_end, y_end), tile) \<Rightarrow>
        let out_x_start = max 0 (x_start * scale);
            out_y_start = max 0 (y_start * scale);
            out_x_end = min output_width (x_end * scale);
            out_y_end = min output_height (y_end * scale);
            tile_height = rows tile;
            tile_width = cols tile;
            tile_portion = getslice tile (0, min tile_height (out_y_end - out_y_start))
                                         (0, min tile_width (out_x_end - out_x_start));
            row_slice = (out_y_start, out_y_start + rows tile_portion);
            col_slice = (out_x_start, out_x_start + cols tile_portion)
        in case setslice upscaled row_slice col_slice tile_portion of
             Inr upscaled' \<Rightarrow>
               (upscaled', Written (slice_range row_slice (rows upscaled))
                                   (slice_range col_slice (cols upscaled)))
           | Inl e \<Rightarrow> (upscaled, Skipped))"

fun combine_tiles :: "int \<Rightarrow> int \<Rightarrow> int \<Rightarrow> ndarray \<Rightarrow> (tile_position \<times> ndarray) list
    \<Rightarrow> ndarray \<times> tile_write list" where
  \<comment> \<open>\<^verbatim>\<open>for i, (position, tile) in enumerate(zip(tile_positions, upscaled_tiles))\<close>\<close>
  "combine_tiles scale output_width output_height upscaled [] = (upscaled, [])"
| "combine_tiles scale output_width output_height upscaled (pt # pts) =
     (case combine_tile scale output_width output_height upscaled pt of
        (upscaled', w) \<Rightarrow>
          (case combine_tiles scale output_width output_height upscaled' pts of
             (upscaled'', ws) \<Rightarrow> (upscaled'', w # ws)))"

fun covers :: "tile_write \<Rightarrow> int \<Rightarrow> int \<Rightarrow> bool" where
  "covers (Written (r_lo, r_hi) (c_lo, c_hi)) r c = (r_lo \<le> r \<and> r < r_hi \<and> c_lo \<le> c \<and> c < c_hi)"
| "covers Skipped r c = False"

definition write_count :: "tile_write list \<Rightarrow> int \<Rightarrow> int \<Rightarrow> nat" where
  \<comment> \<open>how many iterations of the combining loop assigned the canvas pixel at row \<open>r\<close>, column \<open>c\<close>\<close>
  "write_count ws r c = length (filter (\<lambda>w. covers w r c) ws)"

definition scaled_shape :: "int \<Rightarrow> tile_position \<Rightarrow> ndarray \<Rightarrow> bool" where
  \<comment> \<open>the upscaled tile has exactly \<open>scale\<close> times the height and width of its position\<close>
  "scaled_shape scale p tile = (case p of (x_start, y_start, x_end, y_end) \<Rightarrow>
     rows tile = (y_end - y_start) * scale \<and> cols tile = (x_end - x_start) * scale)"

definition scaled_region :: "int \<Rightarrow> tile_position \<Rightarrow> tile_write" where
  \<comment> \<open>the assignment of the whole position, scaled\<close>
  "scaled_region scale p = (case p of (x_start, y_start, x_end, y_end) \<Rightarrow>
     Written (y_start * scale, y_end * scale) (x_start * scale, x_end * scale))"

subsection \<open>The upscaling step of \<^verbatim>\<open>upscale_image\<close> (lines 254-375)\<close>

datatype mode = Tiled | SingleShot

definition extract_tiles :: "ndarray \<Rightarrow> tile_position list \<Rightarrow> ndarray list" where
  \<comment> \<open>\<^verbatim>\<open>tile = image[y_start:y_end, x_start:x_end]\<close> for every position\<close>
  "extract_tiles img ps =
     map (\<lambda>(x_start, y_start, x_end, y_end). getslice img (y_start, y_end) (x_start, x_end)) ps"

definition upscale_tiled :: "transform \<Rightarrow> rat \<Rightarrow> (nat \<Rightarrow> rat \<times> rat) \<Rightarrow> ndarray \<Rightarrow> int \<Rightarrow> int
    \<Rightarrow> event list \<times> (exn + ndarray \<times> tile_write list)" where
  \<comment> \<open>the branch for large images. The two trackers only write progress lines; the line
      written by \<^verbatim>\<open>complete()\<close> and the tracker of the combining loop are left out.\<close>
  "upscale_tiled sr t0 clock img scale tile_size =
     (let height = rows img;
          width = cols img;
          positions = tile_positions width height tile_size;
          tiles = extract_tiles img positions;
          total_tiles = num_tiles width tile_size * num_tiles height tile_size;
          tile_tracker = init_tracker total_tiles ''Processing tiles'' t0
      in case executor_map sr (Some tile_tracker) clock 0 tiles of
           (evs, Inl e) \<Rightarrow> (evs, Inl e)
         | (evs, Inr (upscaled_tiles, _)) \<Rightarrow>
            (let output_height = height * scale;
                 output_width = width * scale;
                 upscaled = zeros output_height output_width
             in (evs, Inr (combine_tiles scale output_width output_height upscaled
                             (zip positions upscaled_tiles)))))"

definition upscale :: "transform \<Rightarrow> rat \<Rightarrow> (nat \<Rightarrow> rat \<times> rat) \<Rightarrow> ndarray \<Rightarrow> int \<Rightarrow> int
    \<Rightarrow> mode \<times> event list \<times> (exn + ndarray)" where
  \<comment> \<open>the body of the \<^verbatim>\<open>try\<close> block up to the upscaled image; the spinner thread and the
      printed timing figures are left out\<close>
  "upscale sr t0 clock img scale tile_size =
     (let height = rows img; width = cols img
      in if tile_size > 0 \<and> (width > tile_size \<or> height > tile_size) \<and> width * height > 1000000
         then (case upscale_tiled sr t0 clock img scale tile_size of
                 (evs, Inl e) \<Rightarrow> (Tiled, evs, Inl e)
               | (evs, Inr (upscaled, ws)) \<Rightarrow> (Tiled, evs, Inr upscaled))
         else (SingleShot, [Upsample img], sr img))"

subsection \<open>\<^verbatim>\<open>upscale_image\<close> (lines 164-398)\<close>

text \<open>
  The file system, the image codec and the model are the environment of a run: what each
  of them answers is a field of \<open>env\<close>. A run ends by raising, by \<^verbatim>\<open>sys.exit(1)\<close> after
  printing which step failed, or by returning after the image was written. The choice
  of a GPU backend (lines 225-248) only configures the model and prints; it is left out.
\<close>

record env =
  model_present :: bool  \<comment> \<open>\<^verbatim>\<open>os.path.exists(model_path)\<close> at line 189\<close>
  download :: bool  \<comment> \<open>\<^verbatim>\<open>download_edsr_models()\<close> returns rather than exits\<close>
  model_present_after :: bool  \<comment> \<open>\<^verbatim>\<open>os.path.exists(model_path)\<close> at line 193\<close>
  imread :: "ndarray option"  \<comment> \<open>\<^verbatim>\<open>cv2.imread(input_path)\<close>; \<open>None\<close> when it cannot be read\<close>
  read_model :: bool  \<comment> \<open>\<^verbatim>\<open>sr.readModel(model_path)\<close> does not raise\<close>
  upsample :: transform  \<comment> \<open>\<^verbatim>\<open>sr.upsample\<close> after \<^verbatim>\<open>sr.setModel('edsr', scale)\<close>\<close>
  tracker_start :: rat
  tracker_clock :: "nat \<Rightarrow> rat \<times> rat"
  imwrite :: bool  \<comment> \<open>\<^verbatim>\<open>cv2.imwrite(output_path, upscaled)\<close> does not raise\<close>

datatype failure = DownloadFailed | ModelMissing | ImageUnreadable | ModelUnreadable
  | UpscalingError exn | SaveFailed

datatype outcome = Raised exn | Exit1 failure | Returned

definition supported_scales :: "int list" where
  "supported_scales = [2, 3, 4]"

definition upscale_image :: "env \<Rightarrow> int \<Rightarrow> int \<Rightarrow> outcome \<times> event list" where
  "upscale_image env scale tile_size =
     (if scale \<notin> set supported_scales then (Raised ValueError, [])
      else
        let ev1 = (if model_present env then [ModelProbe] else [ModelProbe, Download])
        in if \<not> model_present env \<and> \<not> download env then (Exit1 DownloadFailed, ev1)
           else if \<not> model_present_after env then (Exit1 ModelMissing, ev1 @ [ModelProbe])
           else (case imread env of
                   None \<Rightarrow> (Exit1 ImageUnreadable, ev1 @ [ModelProbe, ImageRead])
                 | Some img \<Rightarrow>
                    let ev2 = ev1 @ [ModelProbe, ImageRead, ModelRead]
                    in if \<not> read_model env then (Exit1 ModelUnreadable, ev2)
                       else (case upscale (upsample env) (tracker_start env) (tracker_clock env)
                                     img scale tile_size of
                               (m, evs, Inl e) \<Rightarrow> (Exit1 (UpscalingError e), ev2 @ evs)
                             | (m, evs, Inr upscaled) \<Rightarrow>
                                 if imwrite env
                                 then (Returned, ev2 @ evs @ [ImageWrite upscaled])
                                 else (Exit1 SaveFailed, ev2 @ evs @ [ImageWrite upscaled]))))"

subsection \<open>Example inputs\<close>

definition gradient :: "int \<Rightarrow> int \<Rightarrow> ndarray" where
  \<comment> \<open>an image of the given width and height\<close>
  "gradient width height =
     \<lparr>rows = height, cols = width,
      pixel = (\<lambda>r c. (word_of_int r, word_of_int c, 0))\<rparr>"

definition nearest :: "int \<Rightarrow> transform" where
  \<comment> \<open>a transform that repeats every pixel \<open>scale\<close> times in both directions\<close>
  "nearest scale a =
     Inr \<lparr>rows = rows a * scale, cols = cols a * scale,
          pixel = (\<lambda>r c. pixel a (r div scale) (c div scale))\<rparr>"

definition failing_at :: "int \<Rightarrow> int \<Rightarrow> int \<Rightarrow> transform" where
  \<comment> \<open>as \<open>nearest\<close>, but raises on every tile of the given width and height\<close>
  "failing_at w h scale a =
     (if cols a = w \<and> rows a = h then Inl (Cv2Error ''out of memory'') else nearest scale a)"

definition example_env :: "ndarray \<Rightarrow> transform \<Rightarrow> env" where
  "example_env img sr =
     \<lparr>model_present = True, download = True, model_present_after = True,
      imread = Some img, read_model = True, upsample = sr,
      tracker_start = 0, tracker_clock = (\<lambda>i. (of_nat i, of_nat i)), imwrite = True\<rparr>"

section \<open>Properties\<close>

subsection \<open>The tile grid\<close>

lemma num_tiles_pos: "1 \<le> num_tiles e t" by (simp add: num_tiles_def)

lemma set_tile_positions:
  "set (tile_positions w h t) =
     {tile_position w h t x y | x y. 0 \<le> x \<and> x < num_tiles w t \<and> 0 \<le> y \<and> y < num_tiles h t}"
  by (fastforce simp: tile_positions_def Let_def)

lemma round_up_div_bounds:
  fixes e t :: int
  assumes "0 < t"
  shows "e \<le> ((e + t - 1) div t) * t" and "((e + t - 1) div t) * t < e + t"
proof -
  have eq: "((e + t - 1) div t) * t + (e + t - 1) mod t = e + t - 1"
    by (rule div_mult_mod_eq)
  have "0 \<le> (e + t - 1) mod t" "(e + t - 1) mod t < t"
    using assms by simp_all
  with eq show "e \<le> ((e + t - 1) div t) * t" and "((e + t - 1) div t) * t < e + t"
    by linarith+
qed

lemma round_up_div_ceiling:
  fixes e t :: int
  assumes "0 < t"
  shows "(e + t - 1) div t = \<lceil>real_of_int e / real_of_int t\<rceil>"
proof (rule sym, rule ceiling_unique)
  let ?z = "(e + t - 1) div t"
  have t: "0 < real_of_int t" using assms by simp
  have "real_of_int (?z * t) < real_of_int (e + t)"
    using round_up_div_bounds(2)[OF assms, of e] by (simp only: of_int_less_iff)
  then have "(real_of_int ?z - 1) * real_of_int t < real_of_int e"
    by (simp add: algebra_simps)
  then show "real_of_int ?z - 1 < real_of_int e / real_of_int t"
    using t by (simp add: pos_less_divide_eq)
  have "real_of_int e \<le> real_of_int (?z * t)"
    using round_up_div_bounds(1)[OF assms, of e] by (simp only: of_int_le_iff)
  then show "real_of_int e / real_of_int t \<le> real_of_int ?z"
    using t by (simp add: pos_divide_le_eq)
qed

lemma num_tiles_round_up:
  assumes "1 \<le> e" "0 < t"
  shows "num_tiles e t = (e + t - 1) div t"
proof -
  have "t \<le> e + t - 1" using assms by simp
  then have "t div t \<le> (e + t - 1) div t"
    using assms(2) by (intro zdiv_mono1) simp_all
  then show ?thesis using assms(2) by (simp add: num_tiles_def)
qed

lemma num_tiles_ceiling:
  assumes "1 \<le> e" "0 < t"
  shows "num_tiles e t = \<lceil>real_of_int e / real_of_int t\<rceil>"
  using assms by (simp add: num_tiles_round_up round_up_div_ceiling)

lemma num_tiles_start_lt:
  assumes "1 \<le> e" "0 < t" "x < num_tiles e t"
  shows "x * t < e"
proof -
  have "x + 1 \<le> (e + t - 1) div t"
    using assms by (simp add: num_tiles_round_up)
  then have "(x + 1) * t \<le> ((e + t - 1) div t) * t"
    using assms(2) by (simp add: mult_right_mono)
  also have "\<dots> < e + t" by (rule round_up_div_bounds(2)[OF assms(2)])
  finally show ?thesis by (simp add: algebra_simps)
qed

lemma div_lt_num_tiles:
  assumes "0 \<le> p" "p < e" "0 < t"
  shows "p div t < num_tiles e t"
proof -
  have "p div t \<le> (e - 1) div t"
    using assms by (intro zdiv_mono1) simp_all
  also have "\<dots> < (e - 1 + t) div t"
    using assms(3) by simp
  also have "\<dots> = num_tiles e t"
    using assms by (simp add: num_tiles_round_up algebra_simps)
  finally show ?thesis .
qed

lemma tile_position_in_bounds:
  assumes "1 \<le> w" "1 \<le> h" "0 < t"
    and "0 \<le> x" "x < num_tiles w t" "0 \<le> y" "y < num_tiles h t"
  shows "in_bounds w h (tile_position w h t x y)"
proof -
  have "x * t < w" "y * t < h"
    using assms by (auto intro: num_tiles_start_lt)
  moreover have "x * t < (x + 1) * t" "y * t < (y + 1) * t"
    using assms(3) by (simp_all add: algebra_simps)
  moreover have "0 \<le> x * t" "0 \<le> y * t"
    using assms by simp_all
  ultimately show ?thesis
    using assms(1,2) by (simp add: in_bounds_def tile_position_def overlap_def Let_def)
qed

lemma pixel_in_own_tile:
  assumes "0 < t" "0 \<le> px" "px < w" "0 \<le> py" "py < h"
  shows "(px, py) \<in> region (tile_position w h t (px div t) (py div t))"
proof -
  have low: "a div t * t \<le> a" and high: "a < (a div t + 1) * t" for a
  proof -
    have "a div t * t + a mod t = a" by (rule div_mult_mod_eq)
    moreover have "0 \<le> a mod t" "a mod t < t" using assms(1) by simp_all
    ultimately show "a div t * t \<le> a" "a < (a div t + 1) * t"
      unfolding distrib_right by linarith+
  qed
  from low[of px] high[of px] low[of py] high[of py] show ?thesis
    using assms by (simp add: region_def tile_position_def overlap_def Let_def)
qed

lemma region_in_bounds:
  "in_bounds w h p \<Longrightarrow> region p \<subseteq> {0 ..< w} \<times> {0 ..< h}"
  by (auto simp: in_bounds_def region_def)

text \<open>
  Claim C2. For every width and height of at least 1 and every positive tile size, the
  regions of the tile positions together are exactly the pixels \<open>[0, width) \<times> [0, height)\<close>
  of the image, and every position satisfies \<open>0 \<le> x_start < x_end \<le> width\<close> and
  \<open>0 \<le> y_start < y_end \<le> height\<close>.
\<close>

theorem partition_coverage:
  assumes "1 \<le> width" "1 \<le> height" "0 < tile_size"
  shows "(\<Union>p \<in> set (tile_positions width height tile_size). region p)
           = {0 ..< width} \<times> {0 ..< height}
         \<and> (\<forall>p \<in> set (tile_positions width height tile_size). in_bounds width height p)"
proof -
  let ?ps = "tile_positions width height tile_size"
  have bounds: "\<forall>p \<in> set ?ps. in_bounds width height p"
    using assms by (auto simp: set_tile_positions intro: tile_position_in_bounds)
  have sub: "(\<Union>p \<in> set ?ps. region p) \<subseteq> {0 ..< width} \<times> {0 ..< height}"
    using bounds region_in_bounds by blast
  have sup: "{0 ..< width} \<times> {0 ..< height} \<subseteq> (\<Union>p \<in> set ?ps. region p)"
  proof
    fix q assume q: "q \<in> {0 ..< width} \<times> {0 ..< height}"
    obtain px py where [simp]: "q = (px, py)" by (cases q)
    from q have r: "0 \<le> px" "px < width" "0 \<le> py" "py < height" by simp_all
    let ?p = "tile_position width height tile_size (px div tile_size) (py div tile_size)"
    have "0 \<le> px div tile_size" "0 \<le> py div tile_size"
      using r assms(3) by (simp_all add: pos_imp_zdiv_nonneg_iff)
    moreover have "px div tile_size < num_tiles width tile_size"
      "py div tile_size < num_tiles height tile_size"
      using r assms(3) by (simp_all add: div_lt_num_tiles)
    ultimately have "?p \<in> set ?ps"
      unfolding set_tile_positions by blast
    moreover have "q \<in> region ?p"
      using pixel_in_own_tile[OF assms(3) r] by simp
    ultimately show "q \<in> (\<Union>p \<in> set ?ps. region p)" by blast
  qed
  from sub sup bounds show ?thesis by blast
qed

theorem partition_coverage_witness:
  "(\<Union>p \<in> set (tile_positions 40 20 30). region p) = {0 ..< 40} \<times> {0 ..< 20}
   \<and> list_all (in_bounds 40 20) (tile_positions 40 20 30)"
  using partition_coverage[of 40 20 30] by (simp add: list_all_iff)

lemma nth_concat_grid:
  assumes "i < length xs" "j < length ys"
  shows "concat (map (\<lambda>y. map (f y) xs) ys) ! (j * length xs + i) = f (ys ! j) (xs ! i)"
  using assms
proof (induction ys arbitrary: j)
  case Nil
  then show ?case by simp
next
  case (Cons y ys)
  show ?case
  proof (cases j)
    case 0
    with Cons.prems show ?thesis by (simp add: nth_append)
  next
    case (Suc k)
    with Cons.prems have "k < length ys" by simp
    from Cons.IH[OF Cons.prems(1) this] Suc show ?thesis
      by (simp add: nth_append add.assoc)
  qed
qed

lemma length_concat_grid:
  "length (concat (map (\<lambda>y. map (f y) xs) ys)) = length ys * length xs"
  by (induction ys) simp_all

lemma length_tile_positions:
  "length (tile_positions w h t) = nat (num_tiles w t * num_tiles h t)"
  using num_tiles_pos[of w t] num_tiles_pos[of h t]
  by (simp add: tile_positions_def Let_def length_concat_grid nat_mult_distrib mult.commute)

lemma nth_tile_positions:
  assumes "0 \<le> tx" "tx < num_tiles w t" "0 \<le> ty" "ty < num_tiles h t"
  shows "tile_positions w h t ! nat (ty * num_tiles w t + tx) = tile_position w h t tx ty"
proof -
  let ?xs = "[0 .. num_tiles w t - 1]" and ?ys = "[0 .. num_tiles h t - 1]"
  have len: "length ?xs = nat (num_tiles w t)" "length ?ys = nat (num_tiles h t)"
    by simp_all
  have i: "nat tx < length ?xs" and j: "nat ty < length ?ys"
    using assms by simp_all
  have idx: "nat (ty * num_tiles w t + tx) = nat ty * length ?xs + nat tx"
    using assms by (simp add: nat_add_distrib nat_mult_distrib)
  have "tile_positions w h t ! (nat ty * length ?xs + nat tx)
          = tile_position w h t (?xs ! nat tx) (?ys ! nat ty)"
    unfolding tile_positions_def Let_def
    by (rule nth_concat_grid[OF i j, of "\<lambda>y x. tile_position w h t x y"])
  then show ?thesis
    using assms idx by simp
qed

text \<open>
  Claim C3. For every width and height of at least 1 and every positive tile size, with
  the overlap of 16, there are \<open>num_tiles_x * num_tiles_y\<close> positions, where
  \<open>num_tiles_x = ceil(width / tile_size)\<close> and \<open>num_tiles_y = ceil(height / tile_size)\<close> are
  at least 1; the position for grid column \<open>tx\<close> and grid row \<open>ty\<close> has the clamped
  bounds of the formula, and it stands at index \<open>ty * num_tiles_x + tx\<close> of the list: the
  rows of the grid one after the other, each from left to right.
\<close>

theorem partition_grid:
  assumes "1 \<le> width" "1 \<le> height" "0 < tile_size"
  shows "let num_tiles_x = \<lceil>real_of_int width / real_of_int tile_size\<rceil>;
             num_tiles_y = \<lceil>real_of_int height / real_of_int tile_size\<rceil>
         in 1 \<le> num_tiles_x \<and> 1 \<le> num_tiles_y
            \<and> length (tile_positions width height tile_size) = nat (num_tiles_x * num_tiles_y)
            \<and> (\<forall>ty tx. 0 \<le> ty \<and> ty < num_tiles_y \<and> 0 \<le> tx \<and> tx < num_tiles_x \<longrightarrow>
                 tile_positions width height tile_size ! nat (ty * num_tiles_x + tx)
                   = (max 0 (tx * tile_size - 16), max 0 (ty * tile_size - 16),
                      min width ((tx + 1) * tile_size + 16),
                      min height ((ty + 1) * tile_size + 16)))"
proof -
  have nx: "\<lceil>real_of_int width / real_of_int tile_size\<rceil> = num_tiles width tile_size"
    and ny: "\<lceil>real_of_int height / real_of_int tile_size\<rceil> = num_tiles height tile_size"
    using assms by (simp_all add: num_tiles_ceiling)
  show ?thesis
    unfolding Let_def nx ny
    using num_tiles_pos[of width tile_size] num_tiles_pos[of height tile_size]
    by (auto simp: length_tile_positions nth_tile_positions)
      (simp add: tile_position_def overlap_def)
qed

theorem partition_grid_witness:
  "length (tile_positions 2000 1500 1024) = 4
   \<and> tile_positions 2000 1500 1024 ! 1 = (1008, 0, 2000, 1040)
   \<and> tile_positions 2000 1500 1024 ! 2 = (0, 1008, 1040, 1500)"
proof -
  have nx: "\<lceil>real_of_int 2000 / real_of_int 1024\<rceil> = 2"
    and ny: "\<lceil>real_of_int 1500 / real_of_int 1024\<rceil> = 2"
    by (simp_all add: ceiling_eq_iff)
  note g = partition_grid[of 2000 1500 1024, unfolded Let_def nx ny]
  note at = g[THEN conjunct2, THEN conjunct2, THEN conjunct2, rule_format]
  from g have "length (tile_positions 2000 1500 1024) = 4" by simp
  moreover from at[of 0 1] have "tile_positions 2000 1500 1024 ! 1 = (1008, 0, 2000, 1040)"
    by simp
  moreover from at[of 1 0] have "tile_positions 2000 1500 1024 ! 2 = (0, 1008, 1040, 1500)"
    by simp
  ultimately show ?thesis by simp
qed


subsection \<open>The progress tracker\<close>

lemma display_positive:
  assumes "0 < total' t"
  shows "display t now = Inr (Some
           \<lparr>line_description = description t,
            bar_filled = nat (int_trunc (of_int (30 * current t) / of_int (total' t))),
            bar_empty = nat (30 - int_trunc (of_int (30 * current t) / of_int (total' t))),
            percent = min 100 (of_int (current t * 100) / of_int (total' t)),
            line_current = current t,
            line_total = total' t,
            line_eta = (if 0 < current t
                        then Eta (int_trunc ((now - start_time t) * of_int (total' t - current t)
                                             / of_int (current t)))
                        else Unknown)\<rparr>)"
  using assms by (simp add: display_def truediv_def Let_def)

lemma display_returns: "\<exists>shown. display t now = Inr shown"
proof (cases "0 < total' t")
  case True
  then show ?thesis by (simp add: display_positive)
next
  case False
  then show ?thesis by (simp add: display_def)
qed

lemma update_returns:
  "\<exists>shown. update t n now dnow =
     Inr (if update_interval \<le> now - last_update_time t
          then (t\<lparr>current := current t + n, last_update_time := now\<rparr>, Refresh shown)
          else (t\<lparr>current := current t + n\<rparr>, NoRefresh))"
proof -
  obtain shown where "display (t\<lparr>current := current t + n\<rparr>) dnow = Inr shown"
    using display_returns by blast
  then show ?thesis by (auto simp: update_def Let_def)
qed

text \<open>
  Claim C10. For every tracker whose total is at most 0, \<open>display\<close> returns without
  writing anything; and \<open>display\<close> never raises, so the divisions by the total are
  evaluated only when the total is positive.
\<close>

theorem display_guard:
  "(total' t \<le> 0 \<longrightarrow> display t now = Inr None) \<and> (\<forall>e. display t now \<noteq> Inl e)"
  using display_returns[of t now] by (auto simp: display_def)

theorem display_guard_witness:
  "display (init_tracker 0 ''Downloading'' 3) 4 = Inr None"
  using display_guard[of "init_tracker 0 ''Downloading'' 3" 4]
  by (simp add: init_tracker_def)

text \<open>
  Claim C7, as the source has it. \<open>update\<close> adds the amount to \<open>current\<close>; exactly
  when at least half a second has passed since \<open>last_update_time\<close> it calls \<open>display\<close>
  on the tracker so incremented and records the clock reading as
  \<open>last_update_time\<close>, and otherwise it changes nothing else. When the total is
  positive, \<open>display\<close> writes the line below, whose ETA is
  \<open>elapsed * (total - current) / current\<close>, cut to whole seconds, when \<open>current\<close> is
  positive, and is unknown when \<open>current\<close> is 0; when the total is not positive it
  writes nothing.
\<close>

theorem update_and_eta:
  "(\<exists>shown. display (t\<lparr>current := current t + n\<rparr>) dnow = Inr shown
       \<and> update t n now dnow =
           Inr (if 1 / 2 \<le> now - last_update_time t
                then (t\<lparr>current := current t + n, last_update_time := now\<rparr>, Refresh shown)
                else (t\<lparr>current := current t + n\<rparr>, NoRefresh)))
   \<and> (\<exists>t' r. update t n now dnow = Inr (t', r)
       \<and> current t' = current t + n
       \<and> (r \<noteq> NoRefresh) = (1 / 2 \<le> now - last_update_time t))
   \<and> (0 < total' t \<longrightarrow>
        display t dnow = Inr (Some
           \<lparr>line_description = description t,
            bar_filled = nat (int_trunc (of_int (30 * current t) / of_int (total' t))),
            bar_empty = nat (30 - int_trunc (of_int (30 * current t) / of_int (total' t))),
            percent = min 100 (of_int (current t * 100) / of_int (total' t)),
            line_current = current t,
            line_total = total' t,
            line_eta = (if 0 < current t
                        then Eta (int_trunc ((dnow - start_time t) * of_int (total' t - current t)
                                             / of_int (current t)))
                        else Unknown)\<rparr>))
   \<and> (0 < total' t \<longrightarrow>
        (\<exists>l. display t dnow = Inr (Some l)
          \<and> (0 < current t \<longrightarrow> line_eta l = Eta (int_trunc ((dnow - start_time t)
                                    * of_int (total' t - current t) / of_int (current t))))
          \<and> (current t = 0 \<longrightarrow> line_eta l = Unknown)))
   \<and> (total' t \<le> 0 \<longrightarrow> display t dnow = Inr None)"
proof -
  obtain shown where d: "display (t\<lparr>current := current t + n\<rparr>) dnow = Inr shown"
    using display_returns by blast
  then have u: "update t n now dnow =
       Inr (if 1 / 2 \<le> now - last_update_time t
            then (t\<lparr>current := current t + n, last_update_time := now\<rparr>, Refresh shown)
            else (t\<lparr>current := current t + n\<rparr>, NoRefresh))"
    by (simp add: update_def update_interval_def Let_def)
  then have old: "\<exists>t' r. update t n now dnow = Inr (t', r) \<and> current t' = current t + n
       \<and> (r \<noteq> NoRefresh) = (1 / 2 \<le> now - last_update_time t)"
    by simp
  have line: "display t dnow = Inr (Some
           \<lparr>line_description = description t,
            bar_filled = nat (int_trunc (of_int (30 * current t) / of_int (total' t))),
            bar_empty = nat (30 - int_trunc (of_int (30 * current t) / of_int (total' t))),
            percent = min 100 (of_int (current t * 100) / of_int (total' t)),
            line_current = current t,
            line_total = total' t,
            line_eta = (if 0 < current t
                        then Eta (int_trunc ((dnow - start_time t) * of_int (total' t - current t)
                                             / of_int (current t)))
                        else Unknown)\<rparr>)" if "0 < total' t"
    using that by (rule display_positive)
  have eta: "\<exists>l. display t dnow = Inr (Some l)
          \<and> (0 < current t \<longrightarrow> line_eta l = Eta (int_trunc ((dnow - start_time t)
                                    * of_int (total' t - current t) / of_int (current t))))
          \<and> (current t = 0 \<longrightarrow> line_eta l = Unknown)" if "0 < total' t"
    using that by (simp add: display_positive)
  have none: "display t dnow = Inr None" if "total' t \<le> 0"
    using that by (simp add: display_def)
  from d u old line eta none show ?thesis by blast
qed

theorem update_and_eta_witness:
  "(\<exists>l. display ((init_tracker 4 ''Processing tiles'' 10)\<lparr>current := 1\<rparr>) 13 = Inr (Some l)
        \<and> line_eta l = Eta 9)
   \<and> (\<exists>shown. update ((init_tracker 4 ''Processing tiles'' 10)\<lparr>current := 1\<rparr>) 1 12 13
         = Inr ((init_tracker 4 ''Processing tiles'' 10)\<lparr>current := 2, last_update_time := 12\<rparr>,
                Refresh (Some shown))
        \<and> line_eta shown = Eta 3 \<and> line_current shown = 2)"
proof -
  let ?t = "(init_tracker 4 ''Processing tiles'' 10)\<lparr>current := 1\<rparr>"
  note th = update_and_eta[of ?t 1 13 12]
  have tot: "0 < total' ?t" "0 < total' (?t\<lparr>current := current ?t + 1\<rparr>)"
    by (simp_all add: init_tracker_def)
  from th tot(1) have a: "\<exists>l. display ?t 13 = Inr (Some l) \<and> line_eta l = Eta 9"
    by (simp add: init_tracker_def int_trunc_def)
  from th obtain shown where
    d: "display (?t\<lparr>current := current ?t + 1\<rparr>) 13 = Inr shown"
    and u: "update ?t 1 12 13 =
           Inr (if 1 / 2 \<le> 12 - last_update_time ?t
                then (?t\<lparr>current := current ?t + 1, last_update_time := 12\<rparr>, Refresh shown)
                else (?t\<lparr>current := current ?t + 1\<rparr>, NoRefresh))"
    by blast
  from d[unfolded display_positive[OF tot(2)]]
  obtain l where l: "shown = Some l" "line_eta l = Eta 3" "line_current l = 2"
    by (auto simp: init_tracker_def int_trunc_def)
  from u l have "update ?t 1 12 13
         = Inr ((init_tracker 4 ''Processing tiles'' 10)\<lparr>current := 2, last_update_time := 12\<rparr>,
                Refresh (Some l))"
    by (simp add: init_tracker_def)
  with l a show ?thesis by blast
qed

text \<open>
  Against claim C7 as it is worded: a tracker with total 0 has \<open>current = 0\<close>, and
  \<open>display\<close> writes nothing for it, so no ETA is shown as unknown.
\<close>

theorem eta_without_total_counterexample:
  "current (init_tracker 0 ''Processing tiles'' 10) = 0
   \<and> display (init_tracker 0 ''Processing tiles'' 10) 13 = Inr None"
  by (simp add: init_tracker_def display_def)

subsection \<open>The scale check\<close>

text \<open>
  Claim C8. For every scale other than 2, 3 and 4, \<open>upscale_image\<close> raises
  \<^verbatim>\<open>ValueError\<close> before anything else happens: the run has no event, so no model file
  is looked for or read, no image is read and the transform is not called.
\<close>

theorem unsupported_scale:
  "scale \<notin> {2, 3, 4} \<Longrightarrow> upscale_image env scale tile_size = (Raised ValueError, [])"
  by (simp add: upscale_image_def supported_scales_def)

theorem unsupported_scale_witness:
  "upscale_image (example_env (gradient 2000 1500) (nearest 5)) 5 1024 = (Raised ValueError, [])"
  using unsupported_scale[of 5 "example_env (gradient 2000 1500) (nearest 5)" 1024] by simp

subsection \<open>Upscaling the tiles\<close>

lemma process_tile_result:
  "sr tile = Inr r \<Longrightarrow> \<exists>tracker'. process_tile sr tile tracker rd = ([Upsample tile], Inr (r, tracker'))"
proof (cases tracker)
  case None
  assume "sr tile = Inr r"
  with None show ?thesis by (simp add: process_tile_def)
next
  case (Some t)
  assume r: "sr tile = Inr r"
  obtain t' rf where "update t 1 (fst rd) (snd rd) = Inr (t', rf)"
    using update_returns[of t 1 "fst rd" "snd rd"] by (metis surj_pair)
  with Some r show ?thesis by (simp add: process_tile_def)
qed

lemma process_tile_raises:
  "sr tile = Inl e \<Longrightarrow> process_tile sr tile tracker rd = ([Upsample tile], Inl e)"
  by (simp add: process_tile_def)

lemma executor_map_results:
  "snd (executor_map sr tracker clock i tiles) = Inr (rs, tracker')
     \<Longrightarrow> map sr tiles = map Inr rs"
proof (induction tiles arbitrary: tracker i rs)
  case Nil
  then show ?case by simp
next
  case (Cons tile tiles)
  show ?case
  proof (cases "sr tile")
    case (Inl e)
    with Cons.prems show ?thesis by (simp add: process_tile_raises)
  next
    case (Inr r)
    then obtain tr1 where p: "process_tile sr tile tracker (clock i) = ([Upsample tile], Inr (r, tr1))"
      using process_tile_result by blast
    obtain evs res where rest: "executor_map sr tr1 clock (Suc i) tiles = (evs, res)"
      by (cases "executor_map sr tr1 clock (Suc i) tiles")
    from Cons.prems p rest obtain rs' where res: "res = Inr (rs', tracker')" and rs: "rs = r # rs'"
      by (cases res) auto
    from rest res have "snd (executor_map sr tr1 clock (Suc i) tiles) = Inr (rs', tracker')"
      by simp
    from Cons.IH[OF this] Inr rs show ?thesis by simp
  qed
qed

lemma executor_map_returns:
  "\<forall>tile \<in> set tiles. \<exists>r. sr tile = Inr r
     \<Longrightarrow> \<exists>rs tracker'. snd (executor_map sr tracker clock i tiles) = Inr (rs, tracker')"
proof (induction tiles arbitrary: tracker i)
  case Nil
  then show ?case by simp
next
  case (Cons tile tiles)
  then obtain r where "sr tile = Inr r" by auto
  then obtain tr1 where p: "process_tile sr tile tracker (clock i) = ([Upsample tile], Inr (r, tr1))"
    using process_tile_result by blast
  from Cons obtain rs tr2 where "snd (executor_map sr tr1 clock (Suc i) tiles) = Inr (rs, tr2)"
    by fastforce
  with p show ?case
    by (cases "executor_map sr tr1 clock (Suc i) tiles") auto
qed

lemma executor_map_raises:
  "List.find (\<lambda>tile. isl (sr tile)) tiles = Some bad
     \<Longrightarrow> snd (executor_map sr tracker clock i tiles) = Inl (projl (sr bad))"
proof (induction tiles arbitrary: tracker i)
  case Nil
  then show ?case by simp
next
  case (Cons tile tiles)
  show ?case
  proof (cases "sr tile")
    case (Inl e)
    with Cons.prems show ?thesis by (auto simp: process_tile_raises)
  next
    case (Inr r)
    then obtain tr1 where p: "process_tile sr tile tracker (clock i) = ([Upsample tile], Inr (r, tr1))"
      using process_tile_result by blast
    from Cons.prems Inr have "List.find (\<lambda>tile. isl (sr tile)) tiles = Some bad" by simp
    from Cons.IH[OF this] have "snd (executor_map sr tr1 clock (Suc i) tiles) = Inl (projl (sr bad))" .
    with p show ?thesis
      by (cases "executor_map sr tr1 clock (Suc i) tiles") auto
  qed
qed

text \<open>
  Claim C5. Whenever the executor returns, its list of results has the length of the
  list of tiles and its \<open>k\<close>-th entry is what the transform returned for the \<open>k\<close>-th
  tile; and it does return when the transform returns for every tile.
\<close>

theorem executor_map_order:
  "(\<forall>rs tracker'. snd (executor_map sr tracker clock i tiles) = Inr (rs, tracker') \<longrightarrow>
       length rs = length tiles \<and> (\<forall>k < length tiles. sr (tiles ! k) = Inr (rs ! k)))
   \<and> ((\<forall>tile \<in> set tiles. \<exists>r. sr tile = Inr r) \<longrightarrow>
       (\<exists>rs tracker'. snd (executor_map sr tracker clock i tiles) = Inr (rs, tracker')))"
proof -
  have "length rs = length tiles \<and> (\<forall>k < length tiles. sr (tiles ! k) = Inr (rs ! k))"
    if "snd (executor_map sr tracker clock i tiles) = Inr (rs, tracker')" for rs tracker'
  proof -
    from that have eq: "map sr tiles = map Inr rs" by (rule executor_map_results)
    then have len: "length rs = length tiles" by (metis length_map)
    with eq have "\<forall>k < length tiles. sr (tiles ! k) = Inr (rs ! k)" by (metis nth_map)
    with len show ?thesis by simp
  qed
  moreover have "\<exists>rs tracker'. snd (executor_map sr tracker clock i tiles) = Inr (rs, tracker')"
    if "\<forall>tile \<in> set tiles. \<exists>r. sr tile = Inr r"
    using that by (rule executor_map_returns)
  ultimately show ?thesis by blast
qed

theorem executor_map_order_witness:
  "(\<exists>rs tracker'. snd (executor_map (nearest 2) None (\<lambda>i. (0, 0)) 0 [gradient 3 2, gradient 5 4])
        = Inr (rs, tracker')
      \<and> length rs = 2
      \<and> nearest 2 (gradient 3 2) = Inr (rs ! 0)
      \<and> nearest 2 (gradient 5 4) = Inr (rs ! 1))"
proof -
  note o = executor_map_order[of "nearest 2" None "\<lambda>i. (0, 0)" 0 "[gradient 3 2, gradient 5 4]"]
  have "\<forall>tile \<in> set [gradient 3 2, gradient 5 4]. \<exists>r. nearest 2 tile = Inr r"
    by (simp add: nearest_def)
  with o obtain rs tracker' where
    r: "snd (executor_map (nearest 2) None (\<lambda>i. (0, 0)) 0 [gradient 3 2, gradient 5 4]) = Inr (rs, tracker')"
    by blast
  with o have "length rs = 2" and "\<forall>k < 2. nearest 2 ([gradient 3 2, gradient 5 4] ! k) = Inr (rs ! k)"
    by fastforce+
  then have "nearest 2 (gradient 3 2) = Inr (rs ! 0)" "nearest 2 (gradient 5 4) = Inr (rs ! 1)"
    by (auto simp: numeral_2_eq_2 less_Suc_eq)
  with r \<open>length rs = 2\<close> show ?thesis by blast
qed

subsection \<open>Combining the tiles\<close>

lemma slice_range_inside:
  "0 \<le> a \<Longrightarrow> a \<le> b \<Longrightarrow> b \<le> n \<Longrightarrow> slice_range (a, b) n = (a, b)"
  by (auto simp: slice_range_def slice_index_def Let_def)

lemma getslice_shape:
  assumes "0 \<le> r0" "r0 \<le> r1" "r1 \<le> rows a" "0 \<le> c0" "c0 \<le> c1" "c1 \<le> cols a"
  shows "rows (getslice a (r0, r1) (c0, c1)) = r1 - r0" "cols (getslice a (r0, r1) (c0, c1)) = c1 - c0"
  using assms by (simp_all add: getslice_def slice_range_inside)

lemma setslice_shape:
  "setslice a rs cs v = Inr a' \<Longrightarrow> rows a' = rows a \<and> cols a' = cols a"
  by (auto simp: setslice_def Let_def split: prod.splits if_splits)

lemma combine_tile_shape:
  "combine_tile scale ow oh u pt = (u', w) \<Longrightarrow> rows u' = rows u \<and> cols u' = cols u"
  by (auto simp: combine_tile_def Let_def split: prod.splits sum.splits dest: setslice_shape)

lemma combine_tile_fits:
  assumes b: "in_bounds w h (xs, ys, xe, ye)" and s: "0 \<le> scale"
    and shape: "scaled_shape scale (xs, ys, xe, ye) tile"
    and canvas: "rows u = h * scale" "cols u = w * scale"
  shows "\<exists>u'. combine_tile scale (w * scale) (h * scale) u ((xs, ys, xe, ye), tile)
            = (u', scaled_region scale (xs, ys, xe, ye))"
proof -
  have x: "0 \<le> xs * scale" "xs * scale \<le> xe * scale" "xe * scale \<le> w * scale"
    and y: "0 \<le> ys * scale" "ys * scale \<le> ye * scale" "ye * scale \<le> h * scale"
    using b s by (auto simp: in_bounds_def mult_right_mono)
  have t: "rows tile = ye * scale - ys * scale" "cols tile = xe * scale - xs * scale"
    using shape by (simp_all add: scaled_shape_def left_diff_distrib)
  have p: "rows (getslice tile (0, rows tile) (0, cols tile)) = rows tile"
    "cols (getslice tile (0, rows tile) (0, cols tile)) = cols tile"
    using getslice_shape[of 0 "rows tile" tile 0 "cols tile"] x y t by simp_all
  have o: "max 0 (xs * scale) = xs * scale" "max 0 (ys * scale) = ys * scale"
    "min (w * scale) (xe * scale) = xe * scale" "min (h * scale) (ye * scale) = ye * scale"
    using x y by simp_all
  have r: "slice_range (ys * scale, ys * scale + rows tile) (rows u) = (ys * scale, ye * scale)"
    "slice_range (xs * scale, xs * scale + cols tile) (cols u) = (xs * scale, xe * scale)"
    using x y t canvas by (simp_all add: slice_range_inside)
  show ?thesis
    unfolding combine_tile_def
    by (simp add: Let_def o p r t[symmetric] setslice_def scaled_region_def)
qed

lemma combine_tiles_log:
  assumes "list_all (in_bounds w h) ps" "0 \<le> scale" "list_all2 (scaled_shape scale) ps tiles"
    "rows u = h * scale" "cols u = w * scale"
  shows "snd (combine_tiles scale (w * scale) (h * scale) u (zip ps tiles))
           = map (scaled_region scale) ps"
  using assms
proof (induction ps arbitrary: tiles u)
  case Nil
  then show ?case by simp
next
  case (Cons p ps)
  from Cons.prems(3) obtain tile rest where tiles: "tiles = tile # rest"
    and sh: "scaled_shape scale p tile" and shs: "list_all2 (scaled_shape scale) ps rest"
    by (auto simp: list_all2_Cons1)
  obtain xs ys xe ye where p: "p = (xs, ys, xe, ye)" by (cases p)
  from Cons.prems(1) p have b: "in_bounds w h (xs, ys, xe, ye)" and bs: "list_all (in_bounds w h) ps"
    by simp_all
  from combine_tile_fits[OF b Cons.prems(2) sh[unfolded p] Cons.prems(4,5)]
  obtain u' where c: "combine_tile scale (w * scale) (h * scale) u (p, tile) = (u', scaled_region scale p)"
    unfolding p by blast
  from combine_tile_shape[OF c] Cons.prems(4,5) have "rows u' = h * scale" "cols u' = w * scale"
    by simp_all
  from Cons.IH[OF bs Cons.prems(2) shs this] c tiles show ?case
    by (auto split: prod.splits)
qed


lemma tile_positions_in_bounds:
  assumes "1 \<le> w" "1 \<le> h" "0 < t"
  shows "list_all (in_bounds w h) (tile_positions w h t)"
  using assms by (auto simp: list_all_iff set_tile_positions intro: tile_position_in_bounds)

lemma extract_tiles_nth:
  assumes "k < length ps" "ps ! k = (xs, ys, xe, ye)"
  shows "extract_tiles img ps ! k = getslice img (ys, ye) (xs, xe)"
  using assms by (simp add: extract_tiles_def)

lemma upscale_tiled_log:
  assumes dims: "1 \<le> cols img" "1 \<le> rows img" "0 < tile_size" and scale: "0 \<le> scale"
    and sr: "\<forall>k < length (tile_positions (cols img) (rows img) tile_size).
          \<exists>r. sr (extract_tiles img (tile_positions (cols img) (rows img) tile_size) ! k) = Inr r
            \<and> scaled_shape scale (tile_positions (cols img) (rows img) tile_size ! k) r"
  shows "\<exists>evs canvas. upscale_tiled sr t0 clock img scale tile_size
           = (evs, Inr (canvas, map (scaled_region scale)
                                    (tile_positions (cols img) (rows img) tile_size)))"
proof -
  let ?ps = "tile_positions (cols img) (rows img) tile_size"
  let ?tiles = "extract_tiles img ?ps"
  let ?tr = "Some (init_tracker (num_tiles (cols img) tile_size * num_tiles (rows img) tile_size)
                     ''Processing tiles'' t0)"
  have len: "length ?tiles = length ?ps" by (simp add: extract_tiles_def)
  have "\<forall>tile \<in> set ?tiles. \<exists>r. sr tile = Inr r"
    using sr len by (metis in_set_conv_nth)
  then obtain rs tr' where run: "snd (executor_map sr ?tr clock 0 ?tiles) = Inr (rs, tr')"
    using executor_map_returns by blast
  then have eq: "map sr ?tiles = map Inr rs" by (rule executor_map_results)
  then have lrs: "length rs = length ?ps" using len by (metis length_map)
  have nth: "sr (?tiles ! k) = Inr (rs ! k)" if "k < length ?ps" for k
  proof -
    have "map sr ?tiles ! k = map Inr rs ! k" using eq by simp
    then show ?thesis using that len lrs by simp
  qed
  have "scaled_shape scale (?ps ! k) (rs ! k)" if "k < length ?ps" for k
  proof -
    from sr that obtain r where "sr (?tiles ! k) = Inr r" "scaled_shape scale (?ps ! k) r"
      by blast
    with nth[OF that] show ?thesis by simp
  qed
  with lrs have shapes: "list_all2 (scaled_shape scale) ?ps rs"
    by (simp add: list_all2_conv_all_nth)
  have "snd (combine_tiles scale (cols img * scale) (rows img * scale)
               (zeros (rows img * scale) (cols img * scale)) (zip ?ps rs))
          = map (scaled_region scale) ?ps"
    by (rule combine_tiles_log[OF tile_positions_in_bounds[OF dims] scale shapes])
      (simp_all add: zeros_def)
  then obtain canvas where comb:
    "combine_tiles scale (cols img * scale) (rows img * scale)
       (zeros (rows img * scale) (cols img * scale)) (zip ?ps rs)
       = (canvas, map (scaled_region scale) ?ps)"
    by (metis prod.collapse)
  from run obtain evs where ex: "executor_map sr ?tr clock 0 ?tiles = (evs, Inr (rs, tr'))"
    by (metis prod.collapse)
  have "upscale_tiled sr t0 clock img scale tile_size
          = (evs, Inr (canvas, map (scaled_region scale) ?ps))"
    unfolding upscale_tiled_def Let_def ex by (simp add: comb)
  then show ?thesis by blast
qed

text \<open>
  Claim C9. When the transform returns, for every tile, an array of exactly \<open>scale\<close>
  times the height and the width of the tile's position, the combining loop assigns
  every tile: the run of the tiled branch returns a canvas, the loop has one entry per
  tile and none of them is the \<^verbatim>\<open>ValueError\<close> branch.
\<close>

theorem combine_never_skips:
  assumes "1 \<le> cols img" "1 \<le> rows img" "0 < tile_size" "1 \<le> scale"
    and "\<forall>k < length (tile_positions (cols img) (rows img) tile_size).
          \<exists>r. sr (extract_tiles img (tile_positions (cols img) (rows img) tile_size) ! k) = Inr r
            \<and> scaled_shape scale (tile_positions (cols img) (rows img) tile_size ! k) r"
  shows "\<exists>evs canvas ws. upscale_tiled sr t0 clock img scale tile_size = (evs, Inr (canvas, ws))
           \<and> length ws = length (tile_positions (cols img) (rows img) tile_size)
           \<and> Skipped \<notin> set ws"
proof -
  have "0 \<le> scale" using assms(4) by simp
  from upscale_tiled_log[OF assms(1-3) this assms(5)]
  obtain evs canvas where
    "upscale_tiled sr t0 clock img scale tile_size
       = (evs, Inr (canvas, map (scaled_region scale)
                                (tile_positions (cols img) (rows img) tile_size)))"
    by blast
  moreover have "Skipped \<notin> set (map (scaled_region scale)
                                 (tile_positions (cols img) (rows img) tile_size))"
    by (auto simp: scaled_region_def)
  ultimately show ?thesis by simp
qed

lemma nearest_scaled:
  assumes "in_bounds (cols img) (rows img) p" "k < length ps" "ps ! k = p"
  shows "\<exists>r. nearest scale (extract_tiles img ps ! k) = Inr r \<and> scaled_shape scale p r"
proof -
  obtain xs ys xe ye where p: "p = (xs, ys, xe, ye)" by (cases p)
  with assms have "rows (getslice img (ys, ye) (xs, xe)) = ye - ys"
    "cols (getslice img (ys, ye) (xs, xe)) = xe - xs"
    by (simp_all add: in_bounds_def getslice_shape)
  with assms p show ?thesis
    by (simp add: extract_tiles_nth nearest_def scaled_shape_def)
qed

lemma nearest_scaled_all:
  assumes "1 \<le> cols img" "1 \<le> rows img" "0 < tile_size"
  shows "\<forall>k < length (tile_positions (cols img) (rows img) tile_size).
          \<exists>r. nearest scale (extract_tiles img (tile_positions (cols img) (rows img) tile_size) ! k) = Inr r
            \<and> scaled_shape scale (tile_positions (cols img) (rows img) tile_size ! k) r"
  using tile_positions_in_bounds[OF assms] nearest_scaled
  by (simp add: list_all_length)

lemma tile_positions_example:
  "tile_positions 2000 1500 1024
     = [(0, 0, 1040, 1040), (1008, 0, 2000, 1040), (0, 1008, 1040, 1500), (1008, 1008, 2000, 1500)]"
  by code_simp

theorem combine_never_skips_witness:
  "\<exists>evs canvas ws. upscale_tiled (nearest 3) 0 (\<lambda>i. (0, 0)) (gradient 2000 1500) 3 1024
       = (evs, Inr (canvas, ws))
     \<and> length ws = 4 \<and> Skipped \<notin> set ws"
proof -
  have g: "cols (gradient 2000 1500) = 2000" "rows (gradient 2000 1500) = 1500"
    by (simp_all add: gradient_def)
  have "\<forall>k < length (tile_positions (cols (gradient 2000 1500)) (rows (gradient 2000 1500)) 1024).
          \<exists>r. nearest 3 (extract_tiles (gradient 2000 1500)
                 (tile_positions (cols (gradient 2000 1500)) (rows (gradient 2000 1500)) 1024) ! k) = Inr r
            \<and> scaled_shape 3 (tile_positions (cols (gradient 2000 1500)) (rows (gradient 2000 1500)) 1024 ! k) r"
    by (rule nearest_scaled_all) (simp_all add: g)
  from combine_never_skips[OF _ _ _ _ this, of 0 "\<lambda>i. (0, 0)"]
  have "\<exists>evs canvas ws. upscale_tiled (nearest 3) 0 (\<lambda>i. (0, 0)) (gradient 2000 1500) 3 1024
       = (evs, Inr (canvas, ws))
     \<and> length ws = length (tile_positions 2000 1500 1024) \<and> Skipped \<notin> set ws"
    by (simp add: g)
  moreover have "length (tile_positions 2000 1500 1024) = 4"
    by (simp add: tile_positions_example)
  ultimately show ?thesis by simp
qed


subsection \<open>How often a canvas pixel is assigned\<close>

lemma div_mult_bounds:
  fixes a t :: int
  assumes "0 < t"
  shows "a div t * t \<le> a" and "a < (a div t + 1) * t"
proof -
  have "a div t * t + a mod t = a" by (rule div_mult_mod_eq)
  moreover have "0 \<le> a mod t" "a mod t < t" using assms by simp_all
  ultimately show "a div t * t \<le> a" "a < (a div t + 1) * t"
    unfolding distrib_right by linarith+
qed

lemma scaled_region_covers:
  assumes "1 \<le> scale" "(c div scale, r div scale) \<in> region p"
  shows "covers (scaled_region scale p) r c"
proof -
  obtain xs ys xe ye where p: "p = (xs, ys, xe, ye)" by (cases p)
  have s: "0 < scale" using assms(1) by simp
  from assms(2) p have in_x: "xs \<le> c div scale" "c div scale + 1 \<le> xe"
    and in_y: "ys \<le> r div scale" "r div scale + 1 \<le> ye"
    by (simp_all add: region_def)
  have "xs * scale \<le> c div scale * scale" "(c div scale + 1) * scale \<le> xe * scale"
    "ys * scale \<le> r div scale * scale" "(r div scale + 1) * scale \<le> ye * scale"
    using in_x in_y s by (simp_all add: mult_right_mono)
  with div_mult_bounds[OF s, of c] div_mult_bounds[OF s, of r]
  have "xs * scale \<le> c" "c < xe * scale" "ys * scale \<le> r" "r < ye * scale"
    by linarith+
  then show ?thesis by (simp add: p scaled_region_def)
qed

lemma canvas_covered:
  assumes dims: "1 \<le> cols img" "1 \<le> rows img" "0 < tile_size" and scale: "1 \<le> scale"
    and sr: "\<forall>k < length (tile_positions (cols img) (rows img) tile_size).
          \<exists>r. sr (extract_tiles img (tile_positions (cols img) (rows img) tile_size) ! k) = Inr r
            \<and> scaled_shape scale (tile_positions (cols img) (rows img) tile_size ! k) r"
    and px: "0 \<le> r" "r < rows img * scale" "0 \<le> c" "c < cols img * scale"
  shows "\<exists>evs canvas ws. upscale_tiled sr t0 clock img scale tile_size = (evs, Inr (canvas, ws))
           \<and> 1 \<le> write_count ws r c"
proof -
  let ?ps = "tile_positions (cols img) (rows img) tile_size"
  have s: "0 < scale" "0 \<le> scale" using scale by simp_all
  from upscale_tiled_log[OF dims s(2) sr]
  obtain evs canvas where run:
    "upscale_tiled sr t0 clock img scale tile_size = (evs, Inr (canvas, map (scaled_region scale) ?ps))"
    by blast
  let ?x = "c div scale" and ?y = "r div scale"
  have "?x * scale < cols img * scale" "?y * scale < rows img * scale"
    using div_mult_bounds(1)[OF s(1), of c] div_mult_bounds(1)[OF s(1), of r] px by linarith+
  then have "?x < cols img" "?y < rows img"
    using s(2) by (auto dest: mult_right_less_imp_less)
  moreover have "0 \<le> ?x" "0 \<le> ?y"
    using px s(1) by (simp_all add: pos_imp_zdiv_nonneg_iff)
  ultimately have src: "0 \<le> ?x" "?x < cols img" "0 \<le> ?y" "?y < rows img"
    by simp_all
  let ?p = "tile_position (cols img) (rows img) tile_size (?x div tile_size) (?y div tile_size)"
  have "0 \<le> ?x div tile_size" "0 \<le> ?y div tile_size"
    using src dims(3) by (simp_all add: pos_imp_zdiv_nonneg_iff)
  moreover have "?x div tile_size < num_tiles (cols img) tile_size"
    "?y div tile_size < num_tiles (rows img) tile_size"
    using src dims(3) by (simp_all add: div_lt_num_tiles)
  ultimately have mem: "?p \<in> set ?ps"
    unfolding set_tile_positions by blast
  have "(?x, ?y) \<in> region ?p"
    by (rule pixel_in_own_tile[OF dims(3) src])
  then have "covers (scaled_region scale ?p) r c"
    by (rule scaled_region_covers[OF scale])
  with mem have "filter (\<lambda>w. covers w r c) (map (scaled_region scale) ?ps) \<noteq> []"
    by (auto simp: filter_empty_conv)
  then have "0 < length (filter (\<lambda>w. covers w r c) (map (scaled_region scale) ?ps))"
    by (rule iffD2[OF length_greater_0_conv])
  then have "1 \<le> write_count (map (scaled_region scale) ?ps) r c"
    unfolding write_count_def by linarith
  with run show ?thesis by simp
qed

lemma filter_two:
  assumes "i < j" "j < length xs" "P (xs ! i)" "P (xs ! j)"
  shows "2 \<le> length (filter P xs)"
proof -
  have split: "xs = take j xs @ drop j xs" by simp
  have "xs ! i \<in> set (take j xs)"
    using assms(1,2) by (metis in_set_conv_nth length_take min.absorb2 nth_take order_less_imp_le)
  with assms(3) have a: "filter P (take j xs) \<noteq> []"
    by (auto simp: filter_empty_conv)
  have "xs ! j \<in> set (drop j xs)"
    using assms(2) by (metis Cons_nth_drop_Suc list.set_intros(1))
  with assms(4) have b: "filter P (drop j xs) \<noteq> []"
    by (auto simp: filter_empty_conv)
  have "length (filter P xs) = length (filter P (take j xs)) + length (filter P (drop j xs))"
    by (metis split filter_append length_append)
  moreover have "1 \<le> length (filter P (take j xs))" "1 \<le> length (filter P (drop j xs))"
    using a b by (simp_all add: Suc_le_eq)
  ultimately show ?thesis by linarith
qed

lemma two_tiles:
  assumes "0 < t" "t < e"
  shows "1 < num_tiles e t"
proof -
  have "2 * t \<le> e + t - 1" using assms by simp
  then have "(2 * t) div t \<le> (e + t - 1) div t"
    using assms(1) by (intro zdiv_mono1) simp_all
  then show ?thesis using assms(1) by (simp add: num_tiles_def)
qed

lemma seam_in_both_tiles:
  assumes "0 < t" "t < e" "1 \<le> f"
  shows "(t, 0) \<in> region (tile_position e f t 0 0)" "(t, 0) \<in> region (tile_position e f t 1 0)"
    "(0, t) \<in> region (tile_position f e t 0 0)" "(0, t) \<in> region (tile_position f e t 0 1)"
  using assms by (simp_all add: region_def tile_position_def overlap_def Let_def)

lemma tiled_run_assigns_twice:
  assumes dims: "1 \<le> cols img" "1 \<le> rows img"
    and tiled: "0 < tile_size" "tile_size < cols img \<or> tile_size < rows img"
    and scale: "1 \<le> scale"
    and sr: "\<forall>k < length (tile_positions (cols img) (rows img) tile_size).
          \<exists>r. sr (extract_tiles img (tile_positions (cols img) (rows img) tile_size) ! k) = Inr r
            \<and> scaled_shape scale (tile_positions (cols img) (rows img) tile_size ! k) r"
  shows "\<exists>evs canvas ws r c. upscale_tiled sr t0 clock img scale tile_size = (evs, Inr (canvas, ws))
           \<and> 0 \<le> r \<and> r < rows img * scale \<and> 0 \<le> c \<and> c < cols img * scale
           \<and> 2 \<le> write_count ws r c"
proof -
  let ?w = "cols img" and ?h = "rows img"
  let ?ps = "tile_positions ?w ?h tile_size"
  let ?ws = "map (scaled_region scale) ?ps"
  have s: "0 < scale" "0 \<le> scale" using scale by simp_all
  from upscale_tiled_log[OF dims tiled(1) s(2) sr]
  obtain evs canvas where run:
    "upscale_tiled sr t0 clock img scale tile_size = (evs, Inr (canvas, ?ws))"
    by blast
  have nx: "1 \<le> num_tiles ?w tile_size" and ny: "1 \<le> num_tiles ?h tile_size"
    by (rule num_tiles_pos)+
  have first: "?ps ! 0 = tile_position ?w ?h tile_size 0 0"
    using nth_tile_positions[of 0 ?w tile_size 0 ?h] nx ny by simp
  have len: "length ?ps = nat (num_tiles ?w tile_size * num_tiles ?h tile_size)"
    by (rule length_tile_positions)
  have count: "2 \<le> write_count ?ws r c"
    if "0 < j" "j < length ?ps" "covers (scaled_region scale (?ps ! 0)) r c"
       "covers (scaled_region scale (?ps ! j)) r c" for j r c
  proof -
    from that(1,2) have "0 < length ?ps" by linarith
    with that show ?thesis
      unfolding write_count_def by (intro filter_two[of 0 j]) simp_all
  qed
  have rows_pos: "0 < ?h * scale" "0 < ?w * scale"
    using dims s(1) by simp_all
  from tiled(2) show ?thesis
  proof
    assume wide: "tile_size < ?w"
    have two: "1 < num_tiles ?w tile_size" by (rule two_tiles[OF tiled(1) wide])
    have second: "?ps ! 1 = tile_position ?w ?h tile_size 1 0"
      using nth_tile_positions[of 1 ?w tile_size 0 ?h] two ny by simp
    have "num_tiles ?w tile_size \<le> num_tiles ?w tile_size * num_tiles ?h tile_size"
      using mult_left_mono[of 1 "num_tiles ?h tile_size" "num_tiles ?w tile_size"] nx ny by simp
    with two have "1 < num_tiles ?w tile_size * num_tiles ?h tile_size" by linarith
    then have j: "1 < length ?ps" unfolding len by simp
    let ?c = "tile_size * scale"
    have d: "?c div scale = tile_size" "0 div scale = 0" using s(1) by simp_all
    have "covers (scaled_region scale (?ps ! 0)) 0 ?c" "covers (scaled_region scale (?ps ! 1)) 0 ?c"
      unfolding first second
      using seam_in_both_tiles(1,2)[OF tiled(1) wide dims(2)]
      by (auto intro!: scaled_region_covers[OF scale] simp: d)
    with count[of 1 0 ?c] j have "2 \<le> write_count ?ws 0 ?c" by simp
    moreover have "0 \<le> ?c" "?c < ?w * scale"
      using tiled(1) wide s(1) by simp_all
    ultimately show ?thesis using run rows_pos by auto
  next
    assume tall: "tile_size < ?h"
    have two: "1 < num_tiles ?h tile_size" by (rule two_tiles[OF tiled(1) tall])
    let ?j = "nat (num_tiles ?w tile_size)"
    have second: "?ps ! ?j = tile_position ?w ?h tile_size 0 1"
      using nth_tile_positions[of 0 ?w tile_size 1 ?h] two nx by simp
    have "num_tiles ?w tile_size * 2 \<le> num_tiles ?w tile_size * num_tiles ?h tile_size"
      using mult_left_mono[of 2 "num_tiles ?h tile_size" "num_tiles ?w tile_size"] nx two by simp
    with nx have "num_tiles ?w tile_size < num_tiles ?w tile_size * num_tiles ?h tile_size"
      by linarith
    with nx have j: "0 < ?j" "?j < length ?ps" unfolding len by simp_all
    let ?r = "tile_size * scale"
    have d: "?r div scale = tile_size" "0 div scale = 0" using s(1) by simp_all
    have "covers (scaled_region scale (?ps ! 0)) ?r 0" "covers (scaled_region scale (?ps ! ?j)) ?r 0"
      unfolding first second
      using seam_in_both_tiles(3,4)[OF tiled(1) tall dims(1)]
      by (auto intro!: scaled_region_covers[OF scale] simp: d)
    with count[of ?j ?r 0] j have "2 \<le> write_count ?ws ?r 0" by simp
    moreover have "0 \<le> ?r" "?r < ?h * scale"
      using tiled(1) tall s(1) by simp_all
    ultimately show ?thesis using run rows_pos by auto
  qed
qed

text \<open>
  Claim C1 asks that every pixel of the canvas is assigned by exactly one tile. No pixel
  is left out (\<open>canvas_covered\<close>), but every run of the tiled branch assigns some pixel
  more than once (\<open>tiled_run_assigns_twice\<close>), against the comment of the combining loop
  that it removes the overlap. On a 2000 by 1500 image with \<open>scale = 2\<close> and
  \<open>tile_size = 1024\<close>, and a transform that returns every tile at twice its size, no
  tile is skipped and the combining loop assigns the canvas pixel in row 0, column 2016
  twice (from the tiles at index 0 and 1) and the pixel in row 2016, column 2016 four
  times: the positions overlap by 32 source pixels and each tile is assigned whole.
\<close>

theorem overlap_assigned_twice:
  "\<exists>evs canvas ws.
     upscale_tiled (nearest 2) 0 (\<lambda>i. (of_nat i, of_nat i)) (gradient 2000 1500) 2 1024
       = (evs, Inr (canvas, ws))
     \<and> Skipped \<notin> set ws
     \<and> write_count ws 0 2016 = 2 \<and> write_count ws 2016 2016 = 4"
proof -
  have g: "cols (gradient 2000 1500) = 2000" "rows (gradient 2000 1500) = 1500"
    by (simp_all add: gradient_def)
  have "\<forall>k < length (tile_positions (cols (gradient 2000 1500)) (rows (gradient 2000 1500)) 1024).
          \<exists>r. nearest 2 (extract_tiles (gradient 2000 1500)
                 (tile_positions (cols (gradient 2000 1500)) (rows (gradient 2000 1500)) 1024) ! k) = Inr r
            \<and> scaled_shape 2 (tile_positions (cols (gradient 2000 1500)) (rows (gradient 2000 1500)) 1024 ! k) r"
    by (rule nearest_scaled_all) (simp_all add: g)
  from upscale_tiled_log[OF _ _ _ _ this, of 0 "\<lambda>i. (of_nat i, of_nat i)"]
  obtain evs canvas where
    "upscale_tiled (nearest 2) 0 (\<lambda>i. (of_nat i, of_nat i)) (gradient 2000 1500) 2 1024
       = (evs, Inr (canvas, map (scaled_region 2) (tile_positions 2000 1500 1024)))"
    by (auto simp: g)
  moreover have "Skipped \<notin> set (map (scaled_region 2) (tile_positions 2000 1500 1024))"
    by (auto simp: scaled_region_def)
  moreover have "write_count (map (scaled_region 2) (tile_positions 2000 1500 1024)) 0 2016 = 2"
    "write_count (map (scaled_region 2) (tile_positions 2000 1500 1024)) 2016 2016 = 4"
    by (simp_all add: tile_positions_example write_count_def scaled_region_def)
  ultimately show ?thesis by simp
qed

subsection \<open>A transform that raises\<close>

lemma executor_map_events:
  "set (fst (executor_map sr tracker clock i tiles)) \<subseteq> range Upsample"
proof (induction tiles arbitrary: tracker i)
  case Nil
  then show ?case by simp
next
  case (Cons tile tiles)
  show ?case
  proof (cases "sr tile")
    case (Inl e)
    then show ?thesis by (simp add: process_tile_raises)
  next
    case (Inr r)
    then obtain tr1 where p: "process_tile sr tile tracker (clock i) = ([Upsample tile], Inr (r, tr1))"
      using process_tile_result by blast
    from Cons.IH[of tr1 "Suc i"] p show ?thesis
      by (cases "executor_map sr tr1 clock (Suc i) tiles") (auto split: sum.splits)
  qed
qed

lemma upscale_tiled_raises:
  assumes "List.find (\<lambda>tile. isl (sr tile))
             (extract_tiles img (tile_positions (cols img) (rows img) tile_size)) = Some bad"
  shows "\<exists>evs. upscale_tiled sr t0 clock img scale tile_size = (evs, Inl (projl (sr bad)))
           \<and> set evs \<subseteq> range Upsample"
proof -
  let ?tiles = "extract_tiles img (tile_positions (cols img) (rows img) tile_size)"
  let ?tr = "Some (init_tracker (num_tiles (cols img) tile_size * num_tiles (rows img) tile_size)
                     ''Processing tiles'' t0)"
  obtain evs res where ex: "executor_map sr ?tr clock 0 ?tiles = (evs, res)"
    by (cases "executor_map sr ?tr clock 0 ?tiles")
  from executor_map_raises[OF assms, of ?tr clock 0] ex have res: "res = Inl (projl (sr bad))"
    by simp
  from executor_map_events[of sr ?tr clock 0 ?tiles] ex have "set evs \<subseteq> range Upsample"
    by simp
  moreover have "upscale_tiled sr t0 clock img scale tile_size = (evs, Inl (projl (sr bad)))"
    unfolding upscale_tiled_def Let_def ex res by simp
  ultimately show ?thesis by blast
qed

lemma upscale_raises:
  assumes "tile_size > 0 \<and> (cols img > tile_size \<or> rows img > tile_size)
             \<and> cols img * rows img > 1000000"
    and "List.find (\<lambda>tile. isl (sr tile))
             (extract_tiles img (tile_positions (cols img) (rows img) tile_size)) = Some bad"
  shows "\<exists>evs. upscale sr t0 clock img scale tile_size = (Tiled, evs, Inl (projl (sr bad)))
           \<and> set evs \<subseteq> range Upsample"
proof -
  from upscale_tiled_raises[OF assms(2), of t0 clock scale] obtain evs where
    "upscale_tiled sr t0 clock img scale tile_size = (evs, Inl (projl (sr bad)))"
    "set evs \<subseteq> range Upsample"
    by blast
  with assms(1) show ?thesis by (simp add: upscale_def Let_def)
qed

lemma upscale_image_raises:
  assumes "scale \<in> {2, 3, 4}"
    and "model_present env \<or> download env" "model_present_after env"
    and "imread env = Some img" "read_model env"
    and "tile_size > 0 \<and> (cols img > tile_size \<or> rows img > tile_size)
           \<and> cols img * rows img > 1000000"
    and "List.find (\<lambda>tile. isl (upsample env tile))
           (extract_tiles img (tile_positions (cols img) (rows img) tile_size)) = Some bad"
  shows "fst (upscale_image env scale tile_size) = Exit1 (UpscalingError (projl (upsample env bad)))"
    and "\<forall>a. ImageWrite a \<notin> set (snd (upscale_image env scale tile_size))"
proof -
  from upscale_raises[OF assms(6,7), of "tracker_start env" "tracker_clock env" scale]
  obtain evs where u: "upscale (upsample env) (tracker_start env) (tracker_clock env) img scale tile_size
      = (Tiled, evs, Inl (projl (upsample env bad)))"
    and evs: "set evs \<subseteq> range Upsample"
    by blast
  from assms(1) have sc: "scale \<in> set supported_scales" by (auto simp: supported_scales_def)
  from sc assms(2-5) u
  show "fst (upscale_image env scale tile_size) = Exit1 (UpscalingError (projl (upsample env bad)))"
    by (simp add: upscale_image_def Let_def)
  from sc assms(2-5) u evs
  show "\<forall>a. ImageWrite a \<notin> set (snd (upscale_image env scale tile_size))"
    by (auto simp: upscale_image_def Let_def)
qed

text \<open>
  Claim C6, as the source has it. When the transform raises for a tile of a tiled run,
  the run ends as a whole: it prints the message of the exception raised for the first
  such tile, in the order of the grid, and exits with status 1. No image is written and
  no blank result takes the place of the missing one. The failure reported is that
  exception alone; the position of the tile is not part of it.
\<close>

theorem tile_failure_is_fatal:
  assumes "scale \<in> {2, 3, 4}"
    and "model_present env \<or> download env" "model_present_after env"
    and "imread env = Some img" "read_model env"
    and "tile_size > 0 \<and> (cols img > tile_size \<or> rows img > tile_size)
           \<and> cols img * rows img > 1000000"
    and "List.find (\<lambda>tile. isl (upsample env tile))
           (extract_tiles img (tile_positions (cols img) (rows img) tile_size)) = Some bad"
  shows "fst (upscale_image env scale tile_size) = Exit1 (UpscalingError (projl (upsample env bad)))
         \<and> (\<forall>a. ImageWrite a \<notin> set (snd (upscale_image env scale tile_size)))"
  using upscale_image_raises[OF assms] by simp

lemma example_tiles:
  "map (\<lambda>tile. (cols tile, rows tile))
       (extract_tiles (gradient 2000 1500) (tile_positions 2000 1500 1024))
     = [(1040, 1040), (992, 1040), (1040, 492), (992, 492)]"
  by (simp add: tile_positions_example extract_tiles_def getslice_def slice_range_def
      slice_index_def gradient_def Let_def)


lemma example_env_ready:
  "model_present (example_env img sr) \<or> download (example_env img sr)"
  "model_present_after (example_env img sr)"
  "imread (example_env img sr) = Some img"
  "read_model (example_env img sr)"
  "upsample (example_env img sr) = sr"
  by (simp_all add: example_env_def)

lemma example_large:
  "(1024::int) > 0 \<and> (cols (gradient 2000 1500) > 1024 \<or> rows (gradient 2000 1500) > 1024)
     \<and> cols (gradient 2000 1500) * rows (gradient 2000 1500) > 1000000"
  by (simp add: gradient_def)

lemma example_first_failure:
  "List.find (\<lambda>tile. isl (failing_at 1040 1040 2 tile))
     (extract_tiles (gradient 2000 1500)
        (tile_positions (cols (gradient 2000 1500)) (rows (gradient 2000 1500)) 1024))
     = Some (getslice (gradient 2000 1500) (0, 1040) (0, 1040))"
  "List.find (\<lambda>tile. isl (failing_at 1040 492 2 tile))
     (extract_tiles (gradient 2000 1500)
        (tile_positions (cols (gradient 2000 1500)) (rows (gradient 2000 1500)) 1024))
     = Some (getslice (gradient 2000 1500) (1008, 1500) (0, 1040))"
  "List.find (\<lambda>tile. isl (failing_at 992 492 2 tile))
     (extract_tiles (gradient 2000 1500)
        (tile_positions (cols (gradient 2000 1500)) (rows (gradient 2000 1500)) 1024))
     = Some (getslice (gradient 2000 1500) (1008, 1500) (1008, 2000))"
  by (simp_all add: tile_positions_example extract_tiles_def getslice_def slice_range_def
      slice_index_def gradient_def failing_at_def nearest_def Let_def)

lemma example_failure_message:
  "projl (failing_at 1040 1040 2 (getslice (gradient 2000 1500) (0, 1040) (0, 1040)))
     = Cv2Error ''out of memory''"
  "projl (failing_at 1040 492 2 (getslice (gradient 2000 1500) (1008, 1500) (0, 1040)))
     = Cv2Error ''out of memory''"
  "projl (failing_at 992 492 2 (getslice (gradient 2000 1500) (1008, 1500) (1008, 2000)))
     = Cv2Error ''out of memory''"
  by (simp_all add: getslice_def slice_range_def slice_index_def gradient_def failing_at_def Let_def)

theorem tile_failure_is_fatal_witness:
  "fst (upscale_image (example_env (gradient 2000 1500) (failing_at 1040 492 2)) 2 1024)
     = Exit1 (UpscalingError (Cv2Error ''out of memory''))
   \<and> (\<forall>a. ImageWrite a \<notin> set (snd (upscale_image
                (example_env (gradient 2000 1500) (failing_at 1040 492 2)) 2 1024)))"
proof -
  let ?env = "example_env (gradient 2000 1500) (failing_at 1040 492 2)"
  have "List.find (\<lambda>tile. isl (upsample ?env tile))
          (extract_tiles (gradient 2000 1500)
             (tile_positions (cols (gradient 2000 1500)) (rows (gradient 2000 1500)) 1024))
          = Some (getslice (gradient 2000 1500) (1008, 1500) (0, 1040))"
    by (simp only: example_env_ready(5) example_first_failure(2))
  from tile_failure_is_fatal[OF _ example_env_ready(1-4) example_large this, of 2]
  show ?thesis
    by (simp add: example_env_ready(5) example_failure_message)
qed

text \<open>
  Against claim C6 as it is worded: in the first run below the transform raises for the
  tile at index 0, at position \<open>(0, 0, 1040, 1040)\<close>; in the second it returns for that
  tile and raises for the tile at index 3, at position \<open>(1008, 1008, 2000, 1500)\<close>.
  Both runs end with the same report, so the report does not tell which tile failed.
\<close>

theorem failure_without_position_counterexample:
  "fst (upscale_image (example_env (gradient 2000 1500) (failing_at 1040 1040 2)) 2 1024)
     = Exit1 (UpscalingError (Cv2Error ''out of memory''))
   \<and> fst (upscale_image (example_env (gradient 2000 1500) (failing_at 992 492 2)) 2 1024)
     = Exit1 (UpscalingError (Cv2Error ''out of memory''))
   \<and> tile_positions 2000 1500 1024 ! 0 = (0, 0, 1040, 1040)
   \<and> isl (failing_at 1040 1040 2
            (extract_tiles (gradient 2000 1500) (tile_positions 2000 1500 1024) ! 0))
   \<and> \<not> isl (failing_at 992 492 2
            (extract_tiles (gradient 2000 1500) (tile_positions 2000 1500 1024) ! 0))"
proof -
  let ?a = "example_env (gradient 2000 1500) (failing_at 1040 1040 2)"
  let ?b = "example_env (gradient 2000 1500) (failing_at 992 492 2)"
  have fa: "List.find (\<lambda>tile. isl (upsample ?a tile))
          (extract_tiles (gradient 2000 1500)
             (tile_positions (cols (gradient 2000 1500)) (rows (gradient 2000 1500)) 1024))
          = Some (getslice (gradient 2000 1500) (0, 1040) (0, 1040))"
    by (simp only: example_env_ready(5) example_first_failure(1))
  have fb: "List.find (\<lambda>tile. isl (upsample ?b tile))
          (extract_tiles (gradient 2000 1500)
             (tile_positions (cols (gradient 2000 1500)) (rows (gradient 2000 1500)) 1024))
          = Some (getslice (gradient 2000 1500) (1008, 1500) (1008, 2000))"
    by (simp only: example_env_ready(5) example_first_failure(3))
  have "fst (upscale_image ?a 2 1024) = Exit1 (UpscalingError (Cv2Error ''out of memory''))"
    using upscale_image_raises(1)[OF _ example_env_ready(1-4) example_large fa, of 2]
    by (simp add: example_env_ready(5) example_failure_message)
  moreover have "fst (upscale_image ?b 2 1024) = Exit1 (UpscalingError (Cv2Error ''out of memory''))"
    using upscale_image_raises(1)[OF _ example_env_ready(1-4) example_large fb, of 2]
    by (simp add: example_env_ready(5) example_failure_message)
  moreover have "tile_positions 2000 1500 1024 ! 0 = (0, 0, 1040, 1040)"
    by (simp add: tile_positions_example)
  moreover have "isl (failing_at 1040 1040 2
            (extract_tiles (gradient 2000 1500) (tile_positions 2000 1500 1024) ! 0))"
    "\<not> isl (failing_at 992 492 2
            (extract_tiles (gradient 2000 1500) (tile_positions 2000 1500 1024) ! 0))"
    by (simp_all add: tile_positions_example extract_tiles_def getslice_def slice_range_def
        slice_index_def gradient_def failing_at_def nearest_def Let_def)
  ultimately show ?thesis by simp
qed


subsection \<open>Choosing between the tiled and the single call\<close>

lemma executor_map_all:
  "\<forall>tile \<in> set tiles. \<exists>r. sr tile = Inr r
     \<Longrightarrow> \<exists>tracker'. executor_map sr tracker clock i tiles
           = (map Upsample tiles, Inr (map (\<lambda>tile. projr (sr tile)) tiles, tracker'))"
proof (induction tiles arbitrary: tracker i)
  case Nil
  then show ?case by simp
next
  case (Cons tile tiles)
  then obtain r where r: "sr tile = Inr r" by auto
  then obtain tr1 where p: "process_tile sr tile tracker (clock i) = ([Upsample tile], Inr (r, tr1))"
    using process_tile_result by blast
  from Cons obtain tr2 where
    "executor_map sr tr1 clock (Suc i) tiles
       = (map Upsample tiles, Inr (map (\<lambda>tile. projr (sr tile)) tiles, tr2))"
    by fastforce
  with p r show ?case by simp
qed

lemma executor_map_failing_trace:
  "List.find (\<lambda>tile. isl (sr tile)) tiles = Some bad
     \<Longrightarrow> \<exists>n. fst (executor_map sr tracker clock i tiles) = map Upsample (take n tiles)
            \<and> bad \<in> set (take n tiles)"
proof (induction tiles arbitrary: tracker i)
  case Nil
  then show ?case by simp
next
  case (Cons tile tiles)
  show ?case
  proof (cases "sr tile")
    case (Inl e)
    with Cons.prems have "bad = tile" by simp
    moreover from Inl have "fst (executor_map sr tracker clock i (tile # tiles)) = [Upsample tile]"
      by (simp add: process_tile_raises)
    ultimately have "fst (executor_map sr tracker clock i (tile # tiles))
          = map Upsample (take 1 (tile # tiles)) \<and> bad \<in> set (take 1 (tile # tiles))"
      by simp
    then show ?thesis by blast
  next
    case (Inr r)
    then obtain tr1 where p: "process_tile sr tile tracker (clock i) = ([Upsample tile], Inr (r, tr1))"
      using process_tile_result by blast
    from Cons.prems Inr have "List.find (\<lambda>tile. isl (sr tile)) tiles = Some bad" by simp
    from Cons.IH[OF this, of tr1 "Suc i"] obtain n where
      n: "fst (executor_map sr tr1 clock (Suc i) tiles) = map Upsample (take n tiles)"
         "bad \<in> set (take n tiles)"
      by blast
    from p n have "fst (executor_map sr tracker clock i (tile # tiles))
          = map Upsample (take (Suc n) (tile # tiles)) \<and> bad \<in> set (take (Suc n) (tile # tiles))"
      by (cases "executor_map sr tr1 clock (Suc i) tiles") (auto split: sum.splits)
    then show ?thesis by blast
  qed
qed

lemma upscale_tiled_all:
  assumes "\<forall>tile \<in> set (extract_tiles img (tile_positions (cols img) (rows img) tile_size)).
             \<exists>r. sr tile = Inr r"
  shows "upscale_tiled sr t0 clock img scale tile_size
           = (map Upsample (extract_tiles img (tile_positions (cols img) (rows img) tile_size)),
              Inr (combine_tiles scale (cols img * scale) (rows img * scale)
                     (zeros (rows img * scale) (cols img * scale))
                     (zip (tile_positions (cols img) (rows img) tile_size)
                          (map (\<lambda>tile. projr (sr tile))
                               (extract_tiles img (tile_positions (cols img) (rows img) tile_size))))))"
proof -
  let ?tr = "Some (init_tracker (num_tiles (cols img) tile_size * num_tiles (rows img) tile_size)
                     ''Processing tiles'' t0)"
  from executor_map_all[OF assms, of ?tr clock 0] obtain tr' where
    "executor_map sr ?tr clock 0 (extract_tiles img (tile_positions (cols img) (rows img) tile_size))
       = (map Upsample (extract_tiles img (tile_positions (cols img) (rows img) tile_size)),
          Inr (map (\<lambda>tile. projr (sr tile))
                 (extract_tiles img (tile_positions (cols img) (rows img) tile_size)), tr'))"
    by blast
  then show ?thesis
    unfolding upscale_tiled_def Let_def by simp
qed

lemma upscale_tiled_failing:
  assumes "List.find (\<lambda>tile. isl (sr tile))
             (extract_tiles img (tile_positions (cols img) (rows img) tile_size)) = Some bad"
  shows "\<exists>n. upscale_tiled sr t0 clock img scale tile_size
           = (map Upsample (take n (extract_tiles img (tile_positions (cols img) (rows img) tile_size))),
              Inl (projl (sr bad)))
          \<and> bad \<in> set (take n (extract_tiles img (tile_positions (cols img) (rows img) tile_size)))"
proof -
  let ?tiles = "extract_tiles img (tile_positions (cols img) (rows img) tile_size)"
  let ?tr = "Some (init_tracker (num_tiles (cols img) tile_size * num_tiles (rows img) tile_size)
                     ''Processing tiles'' t0)"
  obtain evs res where ex: "executor_map sr ?tr clock 0 ?tiles = (evs, res)"
    by (cases "executor_map sr ?tr clock 0 ?tiles")
  from executor_map_raises[OF assms, of ?tr clock 0] ex have res: "res = Inl (projl (sr bad))"
    by simp
  from executor_map_failing_trace[OF assms, of ?tr clock 0] ex obtain n where
    n: "evs = map Upsample (take n ?tiles)" "bad \<in> set (take n ?tiles)"
    by auto
  have "upscale_tiled sr t0 clock img scale tile_size = (evs, Inl (projl (sr bad)))"
    unfolding upscale_tiled_def Let_def ex res by simp
  with n show ?thesis by blast
qed

lemma filter_is_upsample: "filter is_upsample (map Upsample xs) = map Upsample xs"
  by (induction xs) simp_all

text \<open>
  Claim C4. The upscaling step takes the tiled branch if and only if \<open>tile_size > 0\<close>, the
  width or the height exceeds \<open>tile_size\<close>, and \<open>width * height > 1000000\<close>. In every
  other case, so for every image of at most 1000000 pixels, it calls the transform
  once, on the whole image, and returns what that call returns. In the tiled branch it
  calls the transform on the tiles of the grid, in their order, and not on the whole
  image: when every call returns, the calls are those on all the tiles and the result is
  the canvas combined from their results; when a call raises, the calls are those on
  a first stretch of the tiles that contains the failing one, and the step raises the
  exception of the first failing tile.
  A run of \<open>upscale_image\<close> that gets as far as the upscaling step makes exactly these
  calls of the transform.
\<close>

theorem tiling_condition:
  "(fst (upscale sr t0 clock img scale tile_size) = Tiled)
     = (tile_size > 0 \<and> (cols img > tile_size \<or> rows img > tile_size)
        \<and> cols img * rows img > 1000000)
   \<and> (\<not> (tile_size > 0 \<and> (cols img > tile_size \<or> rows img > tile_size)
           \<and> cols img * rows img > 1000000) \<longrightarrow>
        upscale sr t0 clock img scale tile_size = (SingleShot, [Upsample img], sr img))
   \<and> (tile_size > 0 \<and> (cols img > tile_size \<or> rows img > tile_size)
        \<and> cols img * rows img > 1000000
        \<and> (\<forall>tile \<in> set (extract_tiles img (tile_positions (cols img) (rows img) tile_size)).
              \<exists>r. sr tile = Inr r) \<longrightarrow>
        upscale sr t0 clock img scale tile_size
          = (Tiled,
             map Upsample (extract_tiles img (tile_positions (cols img) (rows img) tile_size)),
             Inr (fst (combine_tiles scale (cols img * scale) (rows img * scale)
                         (zeros (rows img * scale) (cols img * scale))
                         (zip (tile_positions (cols img) (rows img) tile_size)
                              (map (\<lambda>tile. projr (sr tile))
                                   (extract_tiles img
                                      (tile_positions (cols img) (rows img) tile_size))))))))
   \<and> (tile_size > 0 \<and> (cols img > tile_size \<or> rows img > tile_size)
        \<and> cols img * rows img > 1000000
        \<and> List.find (\<lambda>tile. isl (sr tile))
             (extract_tiles img (tile_positions (cols img) (rows img) tile_size)) = Some bad \<longrightarrow>
        (\<exists>n. upscale sr t0 clock img scale tile_size
                = (Tiled,
                   map Upsample
                     (take n (extract_tiles img (tile_positions (cols img) (rows img) tile_size))),
                   Inl (projl (sr bad)))
              \<and> bad \<in> set (take n (extract_tiles img
                                      (tile_positions (cols img) (rows img) tile_size)))))
   \<and> (cols img * rows img \<le> 1000000 \<longrightarrow>
        upscale sr t0 clock img scale tile_size = (SingleShot, [Upsample img], sr img))
   \<and> (scale \<in> {2, 3, 4} \<and> (model_present env \<or> download env) \<and> model_present_after env
        \<and> imread env = Some img \<and> read_model env \<and> cols img * rows img \<le> 1000000 \<longrightarrow>
        filter is_upsample (snd (upscale_image env scale tile_size)) = [Upsample img])
   \<and> (scale \<in> {2, 3, 4} \<and> (model_present env \<or> download env) \<and> model_present_after env
        \<and> imread env = Some img \<and> read_model env
        \<and> tile_size > 0 \<and> (cols img > tile_size \<or> rows img > tile_size)
        \<and> cols img * rows img > 1000000
        \<and> (\<forall>tile \<in> set (extract_tiles img (tile_positions (cols img) (rows img) tile_size)).
              \<exists>r. upsample env tile = Inr r) \<longrightarrow>
        filter is_upsample (snd (upscale_image env scale tile_size))
          = map Upsample (extract_tiles img (tile_positions (cols img) (rows img) tile_size)))"
proof -
  let ?cond = "tile_size > 0 \<and> (cols img > tile_size \<or> rows img > tile_size)
        \<and> cols img * rows img > 1000000"
  let ?tiles = "extract_tiles img (tile_positions (cols img) (rows img) tile_size)"
  have branch: "(fst (upscale sr t0 clock img scale tile_size) = Tiled) = ?cond" for sr t0 clock
    by (auto simp: upscale_def Let_def split: prod.splits sum.splits)
  have single: "upscale sr t0 clock img scale tile_size = (SingleShot, [Upsample img], sr img)"
    if "\<not> ?cond" for sr t0 clock
    using that by (auto simp: upscale_def Let_def)
  have small: "upscale sr t0 clock img scale tile_size = (SingleShot, [Upsample img], sr img)"
    if "cols img * rows img \<le> 1000000" for sr t0 clock
    using that by (intro single) simp
  have tiled: "upscale sr t0 clock img scale tile_size
          = (Tiled, map Upsample ?tiles,
             Inr (fst (combine_tiles scale (cols img * scale) (rows img * scale)
                         (zeros (rows img * scale) (cols img * scale))
                         (zip (tile_positions (cols img) (rows img) tile_size)
                              (map (\<lambda>tile. projr (sr tile)) ?tiles)))))"
    if "?cond" "\<forall>tile \<in> set ?tiles. \<exists>r. sr tile = Inr r" for sr t0 clock
    using that(1) upscale_tiled_all[OF that(2), of t0 clock scale]
    by (simp add: upscale_def Let_def split: prod.splits)
  have failing: "\<exists>n. upscale sr t0 clock img scale tile_size
                = (Tiled, map Upsample (take n ?tiles), Inl (projl (sr bad)))
              \<and> bad \<in> set (take n ?tiles)"
    if "?cond" "List.find (\<lambda>tile. isl (sr tile)) ?tiles = Some bad"
  proof -
    from upscale_tiled_failing[OF that(2), of t0 clock scale] obtain n where
      "upscale_tiled sr t0 clock img scale tile_size
         = (map Upsample (take n ?tiles), Inl (projl (sr bad)))"
      "bad \<in> set (take n ?tiles)"
      by blast
    with that(1) have "upscale sr t0 clock img scale tile_size
                = (Tiled, map Upsample (take n ?tiles), Inl (projl (sr bad)))
              \<and> bad \<in> set (take n ?tiles)"
      by (simp add: upscale_def Let_def)
    then show ?thesis by blast
  qed
  have run_small: "filter is_upsample (snd (upscale_image env scale tile_size)) = [Upsample img]"
    if "scale \<in> {2, 3, 4}" "model_present env \<or> download env" "model_present_after env"
       "imread env = Some img" "read_model env" "cols img * rows img \<le> 1000000"
  proof -
    from that(1) have "scale \<in> set supported_scales" by (auto simp: supported_scales_def)
    with that(2-5) small[OF that(6), of "upsample env" "tracker_start env" "tracker_clock env"]
    show ?thesis
      by (cases "upsample env img") (auto simp: upscale_image_def Let_def)
  qed
  have run_tiled: "filter is_upsample (snd (upscale_image env scale tile_size)) = map Upsample ?tiles"
    if "scale \<in> {2, 3, 4}" "model_present env \<or> download env" "model_present_after env"
       "imread env = Some img" "read_model env" "?cond"
       "\<forall>tile \<in> set ?tiles. \<exists>r. upsample env tile = Inr r"
  proof -
    from that(1) have "scale \<in> set supported_scales" by (auto simp: supported_scales_def)
    with that(2-5) tiled[OF that(6,7), of "tracker_start env" "tracker_clock env"]
    show ?thesis
      by (auto simp: upscale_image_def Let_def filter_is_upsample)
  qed
  from branch single small tiled failing run_small run_tiled show ?thesis by blast
qed


theorem tiling_condition_witness:
  "upscale (nearest 3) 0 (\<lambda>i. (0, 0)) (gradient 500 400) 3 1024
     = (SingleShot, [Upsample (gradient 500 400)], nearest 3 (gradient 500 400))
   \<and> upscale (nearest 2) 0 (\<lambda>i. (0, 0)) (gradient 2000 1500) 2 0
     = (SingleShot, [Upsample (gradient 2000 1500)], nearest 2 (gradient 2000 1500))
   \<and> fst (upscale (nearest 2) 0 (\<lambda>i. (0, 0)) (gradient 2000 1500) 2 1024) = Tiled
   \<and> fst (snd (upscale (nearest 2) 0 (\<lambda>i. (0, 0)) (gradient 2000 1500) 2 1024))
     = map Upsample (extract_tiles (gradient 2000 1500) (tile_positions 2000 1500 1024))
   \<and> length (fst (snd (upscale (nearest 2) 0 (\<lambda>i. (0, 0)) (gradient 2000 1500) 2 1024))) = 4
   \<and> filter is_upsample (snd (upscale_image (example_env (gradient 500 400) (nearest 3)) 3 1024))
     = [Upsample (gradient 500 400)]"
proof -
  have g: "cols (gradient 2000 1500) = 2000" "rows (gradient 2000 1500) = 1500"
    "cols (gradient 500 400) = 500" "rows (gradient 500 400) = 400"
    by (simp_all add: gradient_def)
  have ok: "\<forall>tile \<in> set (extract_tiles (gradient 2000 1500) (tile_positions 2000 1500 1024)).
              \<exists>r. nearest 2 tile = Inr r"
    by (simp add: nearest_def)
  note small = tiling_condition[of "nearest 3" 0 "\<lambda>i. (0, 0)" "gradient 500 400" 3 1024
      undefined "example_env (gradient 500 400) (nearest 3)", unfolded g]
  note untiled = tiling_condition[of "nearest 2" 0 "\<lambda>i. (0, 0)" "gradient 2000 1500" 2 0,
      unfolded g]
  note large = tiling_condition[of "nearest 2" 0 "\<lambda>i. (0, 0)" "gradient 2000 1500" 2 1024,
      unfolded g]
  from small have a: "upscale (nearest 3) 0 (\<lambda>i. (0, 0)) (gradient 500 400) 3 1024
     = (SingleShot, [Upsample (gradient 500 400)], nearest 3 (gradient 500 400))"
    by simp
  from untiled have b: "upscale (nearest 2) 0 (\<lambda>i. (0, 0)) (gradient 2000 1500) 2 0
     = (SingleShot, [Upsample (gradient 2000 1500)], nearest 2 (gradient 2000 1500))"
    by simp
  from large have c: "fst (upscale (nearest 2) 0 (\<lambda>i. (0, 0)) (gradient 2000 1500) 2 1024) = Tiled"
    by simp
  from large ok have d: "fst (snd (upscale (nearest 2) 0 (\<lambda>i. (0, 0)) (gradient 2000 1500) 2 1024))
     = map Upsample (extract_tiles (gradient 2000 1500) (tile_positions 2000 1500 1024))"
    by simp
  have e: "length (fst (snd (upscale (nearest 2) 0 (\<lambda>i. (0, 0)) (gradient 2000 1500) 2 1024))) = 4"
    unfolding d by (simp add: extract_tiles_def tile_positions_example)
  from small have f: "filter is_upsample
       (snd (upscale_image (example_env (gradient 500 400) (nearest 3)) 3 1024))
     = [Upsample (gradient 500 400)]"
    by (simp add: example_env_def)
  from a b c d e f show ?thesis by simp
qed


end
